(* ===== verification/Prelude.thy ===== *)
theory Prelude
  imports Complex_Main "HOL-Library.AList" "HOL-Library.List_Lexorder" "HOL-Library.Char_ord"
    "HOL-Library.Multiset"
begin

text \<open>
  Shared vocabulary of the development: the Python exceptions the scripts can raise, the
  result type \<open>'a res\<close> (\<open>Inl\<close> an exception, \<open>Inr\<close> a value), its sequencing
  combinator, a loop over a list that stops at the first exception (a Python \<open>for\<close>
  loop whose body may raise), and generic facts on association lists used by the
  file-system model.
\<close>

named_theorems res_simps \<open>rewrite rules for the exception-passing combinators\<close>
named_theorems alist_simps \<open>facts on association lists used by the directory model\<close>

section \<open>Python exceptions as values\<close>

datatype py_error =
    FileNotFoundError
  | NotADirectoryError
  | IsADirectoryError
  | FileExistsError
  | ValueError
  | ZeroDivisionError
  | KeyError
  | IndexError
  | EOFError

type_synonym 'a res = "py_error + 'a"

definition res_bind :: "'a res \<Rightarrow> ('a \<Rightarrow> 'b res) \<Rightarrow> 'b res" where
  "res_bind r f = (case r of Inl e \<Rightarrow> Inl e | Inr a \<Rightarrow> f a)"

lemma res_bind_Inl [simp, res_simps]: "res_bind (Inl e) f = Inl e"
  by (simp add: res_bind_def)

lemma res_bind_Inr [simp, res_simps]: "res_bind (Inr a) f = f a"
  by (simp add: res_bind_def)

lemma res_bind_eq_Inr [res_simps]:
  "res_bind r f = Inr b \<longleftrightarrow> (\<exists>a. r = Inr a \<and> f a = Inr b)"
  by (cases r) auto

text \<open>
  A \<open>for\<close> loop over a list whose body may raise: the state is threaded through the
  body, and the first exception ends the loop and is propagated.
\<close>

fun for_each :: "('s \<Rightarrow> 'a \<Rightarrow> 's res) \<Rightarrow> 'a list \<Rightarrow> 's \<Rightarrow> 's res" where
  "for_each f [] s = Inr s"
| "for_each f (x # xs) s = res_bind (f s x) (for_each f xs)"

lemma for_each_append [res_simps]:
  "for_each f (xs @ ys) s = res_bind (for_each f xs s) (for_each f ys)"
  by (induction xs arbitrary: s) (auto simp: res_bind_def split: sum.splits)

text \<open>An invariant kept by every successful iteration is kept by the loop.\<close>

lemma for_each_invariant:
  assumes "\<And>s x s'. P s \<Longrightarrow> x \<in> set xs \<Longrightarrow> f s x = Inr s' \<Longrightarrow> P s'"
    and "P s" and "for_each f xs s = Inr s'"
  shows "P s'"
  using assms
proof (induction xs arbitrary: s)
  case Nil
  then show ?case by simp
next
  case (Cons x xs)
  from Cons.prems(3) obtain s1 where s1: "f s x = Inr s1" and rest: "for_each f xs s1 = Inr s'"
    by (auto simp: res_bind_eq_Inr)
  have "P s1" using Cons.prems(1)[OF Cons.prems(2) _ s1] by simp
  have step: "\<And>s y s'. P s \<Longrightarrow> y \<in> set xs \<Longrightarrow> f s y = Inr s' \<Longrightarrow> P s'"
    using Cons.prems(1) by (metis list.set_intros(2))
  show ?case by (rule Cons.IH [OF step \<open>P s1\<close> rest])
qed

text \<open>A loop whose body never raises returns.\<close>

lemma for_each_total:
  assumes "\<And>s x. x \<in> set xs \<Longrightarrow> \<exists>s'. f s x = Inr s'"
  shows "\<exists>s'. for_each f xs s = Inr s'"
  using assms
proof (induction xs arbitrary: s)
  case Nil
  then show ?case by simp
next
  case (Cons x xs)
  then obtain s1 where "f s x = Inr s1" by fastforce
  with Cons show ?case by simp
qed

text \<open>Two loop bodies that succeed alike give loops that succeed alike.\<close>

lemma for_each_Inr_cong:
  assumes "\<And>s x s'. x \<in> set xs \<Longrightarrow> f s x = Inr s' \<longleftrightarrow> g s x = Inr s'"
  shows "for_each f xs s = Inr s' \<longleftrightarrow> for_each g xs s = Inr s'"
  using assms
proof (induction xs arbitrary: s)
  case (Cons x xs)
  have "\<And>a. f s x = Inr a \<longleftrightarrow> g s x = Inr a" using Cons.prems by simp
  moreover have "\<And>a. for_each f xs a = Inr s' \<longleftrightarrow> for_each g xs a = Inr s'"
    using Cons.IH Cons.prems by simp
  ultimately show ?case by (simp add: res_bind_eq_Inr)
qed simp

lemma for_each_fixed:
  "(\<And>x. x \<in> set xs \<Longrightarrow> f s x = Inr s) \<Longrightarrow> for_each f xs s = Inr s"
  by (induction xs) simp_all

text \<open>
  Loops over keys whose body at a key \<open>x\<close> changes only the part \<open>loc s x\<close> of the state
  that belongs to \<open>x\<close>: the parts of other keys are kept, and the body's effect at a key
  can be read off the final state.
\<close>

lemma for_each_local_frame:
  assumes local: "\<And>s x s' y. f s x = Inr s' \<Longrightarrow> y \<noteq> x \<Longrightarrow> loc s' y = loc s y"
    and "for_each f xs s = Inr s'" and "y \<notin> set xs"
  shows "loc s' y = loc s y"
proof -
  have "\<And>s0. loc s0 y = loc s y \<Longrightarrow> x \<in> set xs \<Longrightarrow> f s0 x = Inr s1 \<Longrightarrow> loc s1 y = loc s y" for x s1
    using local assms(3) by metis
  then show ?thesis
    using for_each_invariant [where P = "\<lambda>s0. loc s0 y = loc s y", OF _ _ assms(2)] by blast
qed

lemma for_each_at:
  assumes local: "\<And>s x s' y. f s x = Inr s' \<Longrightarrow> y \<noteq> x \<Longrightarrow> loc s' y = loc s y"
    and run: "for_each f xs s = Inr s'" and x: "x \<in> set xs" and d: "distinct xs"
  obtains s1 s2 where "loc s1 x = loc s x" and "f s1 x = Inr s2" and "loc s' x = loc s2 x"
proof -
  from x obtain as bs where xs: "xs = as @ x # bs" by (metis split_list)
  with d have na: "x \<notin> set as" and nb: "x \<notin> set bs" by auto
  from run xs obtain s1 s2 where a: "for_each f as s = Inr s1" and s2: "f s1 x = Inr s2"
    and b: "for_each f bs s2 = Inr s'"
    by (auto simp: for_each_append res_bind_eq_Inr)
  have "loc s1 x = loc s x" using for_each_local_frame [where loc = loc, OF local a na] .
  moreover have "loc s' x = loc s2 x" using for_each_local_frame [where loc = loc, OF local b nb] .
  ultimately show ?thesis using s2 that by blast
qed

text \<open>
  Such a loop over distinct keys is idempotent when its body is: run again on its own
  result, it returns that result unchanged.
\<close>

lemma for_each_idem:
  assumes local: "\<And>s x s' y. f s x = Inr s' \<Longrightarrow> y \<noteq> x \<Longrightarrow> loc s' y = loc s y"
    and dep: "\<And>s s' x. f s x = Inr s \<Longrightarrow> loc s' x = loc s x \<Longrightarrow> f s' x = Inr s'"
    and idem: "\<And>s x s'. I s \<Longrightarrow> f s x = Inr s' \<Longrightarrow> f s' x = Inr s'"
    and pres: "\<And>s x s'. I s \<Longrightarrow> f s x = Inr s' \<Longrightarrow> I s'"
    and "for_each f xs s = Inr s'" and "distinct xs" and "I s"
  shows "for_each f xs s' = Inr s'"
proof -
  have "\<forall>x \<in> set xs. f s' x = Inr s'"
    using assms(5-7)
  proof (induction xs arbitrary: s)
    case (Cons x xs)
    from Cons.prems(1) obtain s1 where s1: "f s x = Inr s1" and rest: "for_each f xs s1 = Inr s'"
      by (auto simp: res_bind_eq_Inr)
    have I1: "I s1" using pres [OF Cons.prems(3) s1] .
    have nx: "x \<notin> set xs" using Cons.prems(2) by simp
    have "f s1 x = Inr s1" using idem [OF Cons.prems(3) s1] .
    moreover have "loc s' x = loc s1 x"
      using for_each_local_frame [where loc = loc, OF local rest nx] .
    ultimately have "f s' x = Inr s'" by (rule dep)
    moreover have "\<forall>y \<in> set xs. f s' y = Inr s'"
      using Cons.IH [OF rest _ I1] Cons.prems(2) by simp
    ultimately show ?case by simp
  qed simp
  then show ?thesis by (intro for_each_fixed) blast
qed

lemma res_bind_Inr_right: "res_bind r Inr = r"
  by (cases r) simp_all

lemma for_each_Nil_fun: "for_each f [] = Inr"
  by (rule ext) simp

text \<open>A loop reaches a goal when one of its steps establishes it and every step keeps it.\<close>

lemma for_each_establish:
  assumes "x \<in> set xs"
    and inv: "\<And>s y s'. I s \<Longrightarrow> y \<in> set xs \<Longrightarrow> f s y = Inr s' \<Longrightarrow> I s'"
    and keep: "\<And>s y s'. Q s \<Longrightarrow> y \<in> set xs \<Longrightarrow> f s y = Inr s' \<Longrightarrow> Q s'"
    and est: "\<And>s s'. I s \<Longrightarrow> f s x = Inr s' \<Longrightarrow> Q s'"
    and "I s" and "for_each f xs s = Inr s'"
  shows "Q s'"
  using assms
proof (induction xs arbitrary: s)
  case (Cons y xs)
  from Cons.prems(6) obtain s1 where s1: "f s y = Inr s1" and rest: "for_each f xs s1 = Inr s'"
    by (auto simp: res_bind_eq_Inr)
  have I1: "I s1" using Cons.prems(2) [OF Cons.prems(5) _ s1] by simp
  show ?case
  proof (cases "x = y")
    case True
    then have "Q s1" using Cons.prems(4) [OF Cons.prems(5)] s1 by simp
    then show ?thesis
      using for_each_invariant [where P = Q, OF _ _ rest] Cons.prems(3) by (meson list.set_intros(2))
  next
    case False
    with Cons.prems(1) have "x \<in> set xs" by simp
    then show ?thesis
      using Cons.IH [OF _ _ _ _ I1 rest] Cons.prems(2-4) by (meson list.set_intros(2))
  qed
qed simp

section \<open>Association lists\<close>

text \<open>
  A directory listing is an association list from names to entries, in the order the
  operating system lists them; \<open>AList.update\<close> overwrites an existing entry in place
  and appends a new one at the end, as creating a file in a directory does.
\<close>

lemma map_of_update_same [simp, alist_simps]: "map_of (AList.update k v es) k = Some v"
  by (simp add: update_conv')

lemma map_of_update_other [simp, alist_simps]:
  "k' \<noteq> k \<Longrightarrow> map_of (AList.update k v es) k' = map_of es k'"
  by (simp add: update_conv')

lemma update_same_value [alist_simps]: "map_of es k = Some v \<Longrightarrow> AList.update k v es = es"
  by (induction es) auto

lemma update_update_same [simp, alist_simps]:
  "AList.update k v (AList.update k v' es) = AList.update k v es"
  by (induction es) auto

lemma keys_update_present [alist_simps]:
  "k \<in> set (map fst es) \<Longrightarrow> map fst (AList.update k v es) = map fst es"
  by (induction es) auto

lemma keys_update_absent [alist_simps]:
  "k \<notin> set (map fst es) \<Longrightarrow> map fst (AList.update k v es) = map fst es @ [k]"
  by (induction es) auto

lemma filter_keys_update [alist_simps]:
  "\<not> P k \<Longrightarrow> filter P (map fst (AList.update k v es)) = filter P (map fst es)"
  by (induction es) auto

lemma keys_update_set [alist_simps]: "fst ` set (AList.update k v es) = insert k (fst ` set es)"
  by (induction es) auto

lemma alist_eqI:
  "map fst xs = map fst ys \<Longrightarrow> map_of xs = map_of ys \<Longrightarrow> distinct (map fst xs) \<Longrightarrow> xs = ys"
proof (induction xs arbitrary: ys)
  case Nil
  then show ?case by simp
next
  case (Cons x xs)
  from Cons.prems(1) obtain y ys' where ys: "ys = y # ys'" and f: "fst x = fst y" by (cases ys) auto
  have "map_of (x # xs) (fst x) = map_of ys (fst x)" by (rule fun_cong [OF Cons.prems(2)])
  with ys f have "snd x = snd y" by simp
  with f have xy: "x = y" by (cases x, cases y) simp
  have "map_of xs = map_of ys'"
  proof
    fix k
    show "map_of xs k = map_of ys' k"
    proof (cases "k = fst x")
      case True
      have d: "fst x \<notin> set (map fst xs)" using Cons.prems(3) by simp
      have "map fst ys' = map fst xs" using Cons.prems(1) ys by simp
      with d have "fst x \<notin> set (map fst ys')" by simp
      with d True show ?thesis by (simp add: map_of_eq_None_iff [symmetric] del: map_of_eq_None_iff)
    next
      case False
      have "map_of (x # xs) k = map_of ys k" by (rule fun_cong [OF Cons.prems(2)])
      with False ys xy show ?thesis by simp
    qed
  qed
  moreover from Cons.prems(1,3) ys have "map fst xs = map fst ys'" "distinct (map fst xs)" by simp_all
  ultimately have "xs = ys'" using Cons.IH by blast
  with ys xy show ?case by simp
qed

lemma map_add_absorb: "(f ++ g) ++ g = f ++ g"
  by (rule ext) (simp add: map_add_def split: option.splits)

end
