(* ===== verification/PyStr.thy ===== *)
theory PyStr
  imports Prelude
begin

text \<open>
  The Python built-ins the scripts call on names, numbers and console input, modelled
  on their CPython definitions: \<open>str.lower\<close>, \<open>str.endswith\<close> with a tuple,
  \<open>str.strip\<close>, \<open>os.path.splitext\<close>, \<open>int(float)\<close>, \<open>min\<close>/\<open>max\<close> of a list,
  \<open>str(int)\<close> and the fixed-point format \<open>f"{x:.<d>f}"\<close>. Strings are byte strings
  (\<open>char list\<close>); case mapping and white space are those of the ASCII range.
  Floats are modelled as exact reals (see the root theory's header).
\<close>

section \<open>Character classes and case\<close>

definition is_digit :: "char \<Rightarrow> bool" where
  "is_digit c \<longleftrightarrow> CHR ''0'' \<le> c \<and> c \<le> CHR ''9''"

definition digit_char :: "nat \<Rightarrow> char" where
  "digit_char d = char_of (48 + d)"

definition digit_val :: "char \<Rightarrow> nat" where
  "digit_val c = of_char c - 48"

text \<open>\<open>str.lower\<close> on the ASCII range.\<close>

definition lower_char :: "char \<Rightarrow> char" where
  "lower_char c = (if CHR ''A'' \<le> c \<and> c \<le> CHR ''Z'' then char_of (of_char c + (32::nat)) else c)"

definition lower :: "string \<Rightarrow> string" where
  "lower s = map lower_char s"

text \<open>\<open>str.isspace\<close> on the ASCII range: tab, line feed, vertical tab, form feed,
  carriage return, the four separators 0x1c..0x1f, and space.\<close>

definition is_space :: "char \<Rightarrow> bool" where
  "is_space c \<longleftrightarrow> ((9::nat) \<le> of_char c \<and> of_char c \<le> (13::nat)) \<or> ((28::nat) \<le> of_char c \<and> of_char c \<le> (32::nat))"

definition strip :: "string \<Rightarrow> string" where
  "strip s = rev (dropWhile is_space (rev (dropWhile is_space s)))"

section \<open>Suffixes and file extensions\<close>

definition ends_with :: "string \<Rightarrow> string \<Rightarrow> bool" where
  "ends_with s suf \<longleftrightarrow> length suf \<le> length s \<and> drop (length s - length suf) s = suf"

text \<open>\<open>s.endswith((a, b, c))\<close>: true when one of the suffixes ends the string.\<close>

definition ends_with_any :: "string \<Rightarrow> string list \<Rightarrow> bool" where
  "ends_with_any s sufs \<longleftrightarrow> (\<exists>suf \<in> set sufs. ends_with s suf)"

text \<open>
  \<open>os.path.splitext\<close> on a directory entry name (which never contains a separator):
  CPython's \<open>genericpath._splitext\<close> splits at the last dot, unless every character
  before that dot is itself a dot (a leading-dot name such as \<open>.bashrc\<close> has no
  extension).
\<close>

definition last_dot :: "string \<Rightarrow> nat option" where
  "last_dot p = (let ds = filter (\<lambda>i. p ! i = CHR ''.'') [0..<length p]
                 in if ds = [] then None else Some (last ds))"

definition splitext :: "string \<Rightarrow> string \<times> string" where
  "splitext p = (case last_dot p of
      None \<Rightarrow> (p, [])
    | Some d \<Rightarrow> if (\<exists>c \<in> set (take d p). c \<noteq> CHR ''.'') then (take d p, drop d p) else (p, []))"

section \<open>Numbers\<close>

text \<open>\<open>int(x)\<close> on a float truncates towards zero.\<close>

definition py_int :: "real \<Rightarrow> int" where
  "py_int x = (if 0 \<le> x then \<lfloor>x\<rfloor> else \<lceil>x\<rceil>)"

text \<open>\<open>min(xs)\<close> and \<open>max(xs)\<close>: the first element, replaced by every later one that is
  strictly smaller (larger); an empty sequence raises ValueError.\<close>

definition py_min :: "real list \<Rightarrow> real res" where
  "py_min xs = (case xs of [] \<Rightarrow> Inl ValueError
                 | x # ys \<Rightarrow> Inr (foldl (\<lambda>m y. if y < m then y else m) x ys))"

definition py_max :: "real list \<Rightarrow> real res" where
  "py_max xs = (case xs of [] \<Rightarrow> Inl ValueError
                 | x # ys \<Rightarrow> Inr (foldl (\<lambda>m y. if m < y then y else m) x ys))"

text \<open>\<open>str(n)\<close>: decimal digits, most significant first.\<close>

fun str_nat :: "nat \<Rightarrow> string" where
  "str_nat n = (if n < 10 then [digit_char n] else str_nat (n div 10) @ [digit_char (n mod 10)])"

declare str_nat.simps [simp del]

definition str_int :: "int \<Rightarrow> string" where
  "str_int i = (if i < 0 then CHR ''-'' # str_nat (nat (- i)) else str_nat (nat i))"

text \<open>Reading a digit string back (the inverse used by the label reader).\<close>

definition nat_of_digits :: "string \<Rightarrow> nat" where
  "nat_of_digits s = foldl (\<lambda>acc c. 10 * acc + digit_val c) 0 s"

text \<open>
  The fixed-point format \<open>f"{x:.<d>f}"\<close>: CPython rounds the exact value to \<open>d\<close>
  decimals, ties to even, prints a minus sign for every negative value (also one that
  rounds to zero), the integral part in decimal, and \<open>d\<close> zero-padded fraction digits
  after a point (no point when \<open>d = 0\<close>).
\<close>

definition round_half_even :: "real \<Rightarrow> int" where
  "round_half_even r = (let f = \<lfloor>r\<rfloor>; q = r - of_int f in
     if q < 1/2 then f else if 1/2 < q then f + 1 else if even f then f else f + 1)"

definition pad_zero :: "nat \<Rightarrow> string \<Rightarrow> string" where
  "pad_zero d s = replicate (d - length s) CHR ''0'' @ s"

definition fmt_fixed :: "nat \<Rightarrow> real \<Rightarrow> string" where
  "fmt_fixed d x = (let m = nat (round_half_even (\<bar>x\<bar> * 10 ^ d));
                        sign = (if x < 0 then ''-'' else '''')
                    in if d = 0 then sign @ str_nat m
                       else sign @ str_nat (m div 10 ^ d) @ CHR ''.'' # pad_zero d (str_nat (m mod 10 ^ d)))"

text \<open>The value a printed number denotes: what the format keeps of \<open>x\<close>.\<close>

definition rounded :: "nat \<Rightarrow> real \<Rightarrow> real" where
  "rounded d x = (if x < 0 then -1 else 1) * of_int (round_half_even (\<bar>x\<bar> * 10 ^ d)) / 10 ^ d"

section \<open>Facts on the built-ins\<close>


lemma digit_val_digit_char [simp]: "d < 10 \<Longrightarrow> digit_val (digit_char d) = d"
  by (simp add: digit_val_def digit_char_def)

lemma is_digit_digit_char [simp]: "d < 10 \<Longrightarrow> is_digit (digit_char d)"
  by (simp add: is_digit_def digit_char_def less_eq_char_def)

lemma str_nat_nonempty [simp]: "str_nat n \<noteq> []"
  by (subst str_nat.simps) simp

text \<open>Evaluation rules for \<open>str_nat\<close> on numerals (the recursion unfolds one digit at a time).\<close>

lemma str_nat_small: "n < 10 \<Longrightarrow> str_nat n = [digit_char n]"
  by (simp add: str_nat.simps)

lemma str_nat_big: "10 \<le> n \<Longrightarrow> str_nat n = str_nat (n div 10) @ [digit_char (n mod 10)]"
  by (subst str_nat.simps) simp

lemma str_nat_digits: "\<forall>c \<in> set (str_nat n). is_digit c"
proof (induction n rule: str_nat.induct)
  case (1 n)
  then show ?case by (subst str_nat.simps) auto
qed

lemma nat_of_digits_snoc [simp]:
  "nat_of_digits (xs @ [c]) = 10 * nat_of_digits xs + digit_val c"
  by (simp add: nat_of_digits_def)

lemma nat_of_digits_str_nat [simp]: "nat_of_digits (str_nat n) = n"
proof (induction n rule: str_nat.induct)
  case (1 n)
  show ?case
  proof (cases "n < 10")
    case True
    then show ?thesis by (subst str_nat.simps) (simp add: nat_of_digits_def)
  next
    case False
    with "1.IH" show ?thesis by (subst str_nat.simps) simp
  qed
qed

lemma nat_of_digits_zeros [simp]: "nat_of_digits (replicate k CHR ''0'' @ s) = nat_of_digits s"
proof -
  have z: "foldl (\<lambda>acc c. 10 * acc + digit_val c) 0 (replicate k CHR ''0'') = 0"
    by (induction k) (simp_all add: digit_val_def)
  show ?thesis by (simp add: nat_of_digits_def z)
qed

lemma lower_append [simp]: "lower (xs @ ys) = lower xs @ lower ys"
  by (simp add: lower_def)

lemma splitext_concat: "fst (splitext p) @ snd (splitext p) = p"
  by (simp add: splitext_def split: option.splits)

lemma if_less_min: "(if y < a then y else a) = min a y" and if_less_max: "(if a < y then y else a) = max a y"
  for a :: real
  by (simp_all add: min_def max_def)

lemma Min_insert_min: "Min (insert (min a y) (set ys)) = Min (insert a (insert y (set ys)))"
  for a :: real
  by (cases "ys = []") (simp_all add: min.assoc)

lemma Max_insert_max: "Max (insert (max a y) (set ys)) = Max (insert a (insert y (set ys)))"
  for a :: real
  by (cases "ys = []") (simp_all add: max.assoc)

lemma foldl_min_Min:
  "foldl (\<lambda>m y. if y < m then y else m) a ys = Min (insert a (set ys))"
  for a :: real
  by (induction ys arbitrary: a) (simp_all add: if_less_min Min_insert_min)

lemma foldl_max_Max:
  "foldl (\<lambda>m y. if m < y then y else m) a ys = Max (insert a (set ys))"
  for a :: real
  by (induction ys arbitrary: a) (simp_all add: if_less_max Max_insert_max)

lemma py_min_Min: "xs \<noteq> [] \<Longrightarrow> py_min xs = Inr (Min (set xs))"
  by (auto simp: py_min_def foldl_min_Min split: list.splits)

lemma py_max_Max: "xs \<noteq> [] \<Longrightarrow> py_max xs = Inr (Max (set xs))"
  by (auto simp: py_max_def foldl_max_Max split: list.splits)

lemma py_int_nonneg: "0 \<le> x \<Longrightarrow> py_int x = \<lfloor>x\<rfloor>"
  by (simp add: py_int_def)

lemma round_half_even_close: "\<bar>r - of_int (round_half_even r)\<bar> \<le> 1/2"
proof -
  have "of_int \<lfloor>r\<rfloor> \<le> r" "r < of_int \<lfloor>r\<rfloor> + 1" by linarith+
  then show ?thesis by (auto simp: round_half_even_def Let_def)
qed


lemma str_nat_inj [simp]: "str_nat a = str_nat b \<longleftrightarrow> a = b"
  by (metis nat_of_digits_str_nat)

end
