(* ===== verification/FileSys.thy ===== *)
theory FileSys
  imports Prelude "HOL-Library.Sublist"
begin

text \<open>
  The file system the scripts read and write, and the \<open>os\<close>, \<open>os.path\<close> and
  \<open>shutil\<close> calls they make on it. A node is a plain file (its bytes) or a directory,
  an association list from entry names to nodes in the order \<open>os.listdir\<close> returns
  them; creating an entry appends it, overwriting one keeps its place. A path is the list
  of names \<open>os.path.join\<close> puts together. Every call that can raise returns an
  exception value; reads through a missing or non-directory component are reported as
  FileNotFoundError (CPython distinguishes NotADirectoryError there; no claim depends on
  the difference).
\<close>

datatype node = File string | Dir "(string \<times> node) list"

type_synonym path = "string list"

section \<open>Queries\<close>

fun lookup :: "node \<Rightarrow> path \<Rightarrow> node option" where
  "lookup t [] = Some t"
| "lookup (File c) (n # p) = None"
| "lookup (Dir es) (n # p) = (case map_of es n of None \<Rightarrow> None | Some t \<Rightarrow> lookup t p)"

text \<open>\<open>os.path.exists\<close>, \<open>os.path.isdir\<close>, \<open>os.listdir\<close>, and reading a whole file.\<close>

definition exists :: "node \<Rightarrow> path \<Rightarrow> bool" where
  "exists t p \<longleftrightarrow> lookup t p \<noteq> None"

definition isdir :: "node \<Rightarrow> path \<Rightarrow> bool" where
  "isdir t p = (case lookup t p of Some (Dir es) \<Rightarrow> True | _ \<Rightarrow> False)"

definition listdir :: "node \<Rightarrow> path \<Rightarrow> string list res" where
  "listdir t p = (case lookup t p of
      None \<Rightarrow> Inl FileNotFoundError
    | Some (File c) \<Rightarrow> Inl NotADirectoryError
    | Some (Dir es) \<Rightarrow> Inr (map fst es))"

definition read_file :: "node \<Rightarrow> path \<Rightarrow> string res" where
  "read_file t p = (case lookup t p of
      None \<Rightarrow> Inl FileNotFoundError
    | Some (Dir es) \<Rightarrow> Inl IsADirectoryError
    | Some (File c) \<Rightarrow> Inr c)"

section \<open>Updates\<close>

text \<open>Apply a change to the entry list of the directory at a path.\<close>

fun modify_dir ::
  "path \<Rightarrow> ((string \<times> node) list \<Rightarrow> (string \<times> node) list res) \<Rightarrow> node \<Rightarrow> node res" where
  "modify_dir [] f (File c) = Inl NotADirectoryError"
| "modify_dir [] f (Dir es) = res_bind (f es) (\<lambda>es'. Inr (Dir es'))"
| "modify_dir (n # d) f (File c) = Inl NotADirectoryError"
| "modify_dir (n # d) f (Dir es) = (case map_of es n of
      None \<Rightarrow> Inl FileNotFoundError
    | Some t \<Rightarrow> res_bind (modify_dir d f t) (\<lambda>t'. Inr (Dir (AList.update n t' es))))"

text \<open>
  \<open>with open(join(d, n), "w") as f: f.write(c)\<close>: the parent must be a directory;
  an existing file is truncated and rewritten in place, a directory of that name raises.
\<close>

definition write_entry :: "string \<Rightarrow> string \<Rightarrow> (string \<times> node) list \<Rightarrow> (string \<times> node) list res" where
  "write_entry n c es = (case map_of es n of
      Some (Dir _) \<Rightarrow> Inl IsADirectoryError
    | _ \<Rightarrow> Inr (AList.update n (File c) es))"

definition write_file :: "path \<Rightarrow> string \<Rightarrow> string \<Rightarrow> node \<Rightarrow> node res" where
  "write_file d n c t = modify_dir d (write_entry n c) t"

text \<open>
  \<open>os.makedirs(p, exist_ok=True)\<close>: every missing directory on the way is created; an
  existing directory is kept; a plain file at the end raises FileExistsError and one on
  the way NotADirectoryError.
\<close>

fun makedirs :: "path \<Rightarrow> node \<Rightarrow> node res" where
  "makedirs [] (Dir es) = Inr (Dir es)"
| "makedirs [] (File c) = Inl FileExistsError"
| "makedirs (n # d) (File c) = Inl NotADirectoryError"
| "makedirs (n # d) (Dir es) =
     res_bind (makedirs d (case map_of es n of None \<Rightarrow> Dir [] | Some t \<Rightarrow> t))
       (\<lambda>t'. Inr (Dir (AList.update n t' es)))"

text \<open>
  \<open>shutil.copy2(src, dst)\<close> and \<open>shutil.copy(src, dst)\<close> (they differ only in the
  metadata, which is not modelled): when \<open>dst\<close> is a directory the copy goes into it
  under the source's base name; the bytes are read from \<open>src\<close> and written to the
  target as \<open>open(dst, "wb")\<close> would.
\<close>

definition copy_dest :: "node \<Rightarrow> path \<Rightarrow> path \<Rightarrow> path" where
  "copy_dest t src dst = (if isdir t dst then dst @ [last src] else dst)"

definition copy_file :: "path \<Rightarrow> path \<Rightarrow> node \<Rightarrow> node res" where
  "copy_file src dst t =
     (let dst' = copy_dest t src dst
      in res_bind (read_file t src) (\<lambda>c. write_file (butlast dst') (last dst') c t))"

section \<open>Well-formedness\<close>

text \<open>Names within one directory are distinct, at every level.\<close>

fun wf_node :: "node \<Rightarrow> bool" where
  "wf_node (File c) = True"
| "wf_node (Dir es) = (distinct (map fst es) \<and> (\<forall>x \<in> set es. wf_node (snd x)))"

section \<open>Sequences of writes into one directory\<close>

text \<open>
  A sequence of \<open>open(join(d, n), "w").write(c)\<close> calls into one directory \<open>d\<close>, seen
  on the tree (\<open>write_all\<close>) and on the directory's entry list (\<open>write_entries\<close>), and
  the entry list it leaves (\<open>upd_files\<close>) with its map view (\<open>files_map\<close>: the last
  write to a name wins).
\<close>

definition write_entries :: "(string \<times> string) list \<Rightarrow> (string \<times> node) list \<Rightarrow> (string \<times> node) list res" where
  "write_entries ws = for_each (\<lambda>es w. write_entry (fst w) (snd w) es) ws"

definition write_all :: "path \<Rightarrow> (string \<times> string) list \<Rightarrow> node \<Rightarrow> node res" where
  "write_all d ws = for_each (\<lambda>t w. write_file d (fst w) (snd w) t) ws"

definition upd_files :: "(string \<times> node) list \<Rightarrow> (string \<times> string) list \<Rightarrow> (string \<times> node) list" where
  "upd_files es ws = foldl (\<lambda>es w. AList.update (fst w) (File (snd w)) es) es ws"

definition files_map :: "(string \<times> string) list \<Rightarrow> string \<rightharpoonup> node" where
  "files_map ws = map_of (rev (map (\<lambda>w. (fst w, File (snd w))) ws))"

section \<open>What the operations change\<close>


lemma lookup_append: "lookup t (p @ q) = (case lookup t p of None \<Rightarrow> None | Some t' \<Rightarrow> lookup t' q)"
  by (induction t p rule: lookup.induct) (auto split: option.splits)

lemma modify_dir_Inr:
  assumes "modify_dir d f t = Inr t'"
  shows "\<exists>es es'. lookup t d = Some (Dir es) \<and> f es = Inr es' \<and> (\<forall>q. lookup t' (d @ q) = lookup (Dir es') q)"
  using assms
  by (induction d f t arbitrary: t' rule: modify_dir.induct)
     (auto simp: res_bind_eq_Inr split: option.splits)

lemma modify_dir_parallel:
  assumes "modify_dir d f t = Inr t'" and "\<not> prefix p d" and "\<not> prefix d p"
  shows "lookup t' p = lookup t p"
  using assms
proof (induction d f t arbitrary: t' p rule: modify_dir.induct)
  case (4 n d f es)
  then obtain t0 t0' where t0: "map_of es n = Some t0" and m: "modify_dir d f t0 = Inr t0'"
    and t': "t' = Dir (AList.update n t0' es)"
    by (auto simp: res_bind_eq_Inr split: option.splits)
  show ?case
  proof (cases p)
    case Nil
    with "4.prems" show ?thesis by simp
  next
    case (Cons m p')
    show ?thesis
    proof (cases "m = n")
      case True
      with Cons "4.prems" have "\<not> prefix p' d" "\<not> prefix d p'" by auto
      with "4.IH"[OF t0 m] t0 t' Cons True show ?thesis by simp
    next
      case False
      with Cons t' show ?thesis by simp
    qed
  qed
qed auto

lemma modify_dir_ancestor:
  assumes "modify_dir d f t = Inr t'" and "strict_prefix p d"
  shows "\<exists>es1 es1'. lookup t p = Some (Dir es1) \<and> lookup t' p = Some (Dir es1')
           \<and> map fst es1' = map fst es1"
  using assms
proof (induction d f t arbitrary: t' p rule: modify_dir.induct)
  case (4 n d f es)
  then obtain t0 t0' where t0: "map_of es n = Some t0" and m: "modify_dir d f t0 = Inr t0'"
    and t': "t' = Dir (AList.update n t0' es)"
    by (auto simp: res_bind_eq_Inr split: option.splits)
  have key: "n \<in> set (map fst es)"
    using t0 by (force dest: map_of_SomeD)
  show ?case
  proof (cases p)
    case Nil
    with t' key show ?thesis by (simp add: keys_update_present)
  next
    case (Cons m p')
    with "4.prems" have "m = n" "strict_prefix p' d" by (auto simp: strict_prefix_def)
    with "4.IH"[OF t0 m] t0 t' Cons show ?thesis by simp
  qed
qed (auto simp: strict_prefix_def)

lemma modify_dir_ok:
  assumes "lookup t d = Some (Dir es)" and "f es = Inr es'"
  shows "\<exists>t'. modify_dir d f t = Inr t'"
  using assms
  by (induction d f t rule: modify_dir.induct) (auto split: option.splits)


lemma write_entry_Inr:
  "write_entry n c es = Inr es' \<longleftrightarrow>
     (\<forall>m. map_of es n \<noteq> Some (Dir m)) \<and> es' = AList.update n (File c) es"
  by (auto simp: write_entry_def split: option.splits node.splits)

lemma write_file_Inr:
  assumes "write_file d n c t = Inr t'"
  obtains es where "lookup t d = Some (Dir es)" and "\<forall>m. map_of es n \<noteq> Some (Dir m)"
    and "\<forall>q. lookup t' (d @ q) = lookup (Dir (AList.update n (File c) es)) q"
  using modify_dir_Inr [OF assms [unfolded write_file_def]] by (auto simp: write_entry_Inr)

text \<open>Where a path stands relative to the written file decides what a write does there.\<close>

lemma write_file_lookup_cases:
  assumes w: "write_file d n c t = Inr t'"
  shows "(p = d @ [n] \<and> lookup t' p = Some (File c))
       \<or> (prefix p d \<and> (\<exists>es1 es1'. lookup t p = Some (Dir es1) \<and> lookup t' p = Some (Dir es1')
             \<and> (p \<noteq> d \<longrightarrow> map fst es1' = map fst es1)))
       \<or> (strict_prefix (d @ [n]) p \<and> lookup t' p = None \<and> lookup t p = None)
       \<or> (p \<noteq> d @ [n] \<and> lookup t' p = lookup t p)"
proof -
  obtain es where es: "lookup t d = Some (Dir es)" and nd: "\<forall>m. map_of es n \<noteq> Some (Dir m)"
    and below: "\<forall>q. lookup t' (d @ q) = lookup (Dir (AList.update n (File c) es)) q"
    using w by (rule write_file_Inr)
  have old: "lookup t (d @ q) = lookup (Dir es) q" for q
    using es by (simp add: lookup_append)
  show ?thesis
  proof (cases "prefix d p")
    case True
    then obtain q where p: "p = d @ q" by (auto simp: prefix_def)
    show ?thesis
    proof (cases q)
      case Nil
      with p below [rule_format, of "[]"] es show ?thesis by simp
    next
      case (Cons m q')
      show ?thesis
      proof (cases "m = n")
        case False
        with p Cons below old show ?thesis by simp
      next
        case True
        show ?thesis
        proof (cases q')
          case Nil
          with p Cons True below show ?thesis by simp
        next
          case (Cons m' q'')
          have "lookup t p = None"
            using nd p old \<open>q = m # q'\<close> True Cons by (auto split: option.splits node.splits) (metis lookup.simps(2) node.exhaust)
          moreover have "lookup t' p = None"
            using below p \<open>q = m # q'\<close> True Cons by simp
          moreover have "strict_prefix (d @ [n]) p"
            using p \<open>q = m # q'\<close> True Cons by (simp add: strict_prefix_def)
          ultimately show ?thesis by blast
        qed
      qed
    qed
  next
    case False
    show ?thesis
    proof (cases "prefix p d")
      case True
      with False have "strict_prefix p d" by (auto simp: strict_prefix_def)
      from modify_dir_ancestor [OF w [unfolded write_file_def] this] True show ?thesis by blast
    next
      case False
      with \<open>\<not> prefix d p\<close> modify_dir_parallel [OF w [unfolded write_file_def]] show ?thesis
        by auto
    qed
  qed
qed

lemma write_file_read:
  "write_file d n c t = Inr t' \<Longrightarrow>
     read_file t' p = (if p = d @ [n] then Inr c else read_file t p)"
  using write_file_lookup_cases [of d n c t t' p]
  by (auto simp: read_file_def strict_prefix_def)

lemma write_file_isdir:
  "write_file d n c t = Inr t' \<Longrightarrow> isdir t' p = isdir t p"
proof -
  assume w: "write_file d n c t = Inr t'"
  obtain es where "lookup t d = Some (Dir es)" and nd: "\<forall>m. map_of es n \<noteq> Some (Dir m)"
    and "\<forall>q. lookup t' (d @ q) = lookup (Dir (AList.update n (File c) es)) q"
    using w by (rule write_file_Inr)
  then have "\<not> isdir t (d @ [n])"
    by (auto simp: isdir_def lookup_append split: option.splits node.splits)
  then show ?thesis
    using write_file_lookup_cases [OF w, of p] by (auto simp: isdir_def)
qed

lemma write_file_listdir:
  assumes "write_file d n c t = Inr t'" and "p \<noteq> d" and "p \<noteq> d @ [n]"
  shows "listdir t' p = listdir t p"
  using write_file_lookup_cases [OF assms(1), of p] assms(2,3)
  by (auto simp: listdir_def)

lemma write_file_listdir_dir:
  assumes "write_file d n c t = Inr t'"
  obtains es where "lookup t d = Some (Dir es)"
    and "listdir t' d = Inr (map fst (AList.update n (File c) es))"
proof -
  obtain es where es: "lookup t d = Some (Dir es)"
    and below: "\<forall>q. lookup t' (d @ q) = lookup (Dir (AList.update n (File c) es)) q"
    using assms by (rule write_file_Inr)
  from below [rule_format, of "[]"] have "listdir t' d = Inr (map fst (AList.update n (File c) es))"
    by (simp add: listdir_def)
  with es that show ?thesis by blast
qed

lemma write_file_ok:
  assumes "isdir t d" and "\<not> isdir t (d @ [n])"
  shows "\<exists>t'. write_file d n c t = Inr t'"
proof -
  from assms(1) obtain es where es: "lookup t d = Some (Dir es)"
    by (auto simp: isdir_def split: option.splits node.splits)
  with assms(2) have "\<forall>m. map_of es n \<noteq> Some (Dir m)"
    by (auto simp: isdir_def lookup_append)
  then have "write_entry n c es = Inr (AList.update n (File c) es)"
    by (simp add: write_entry_Inr)
  with es show ?thesis unfolding write_file_def by (rule modify_dir_ok)
qed


lemma set_update_cases: "x \<in> set (AList.update k v es) \<Longrightarrow> x = (k, v) \<or> x \<in> set es"
  by (induction es) (auto split: if_splits)

lemma wf_Dir_update:
  "wf_node (Dir es) \<Longrightarrow> wf_node t \<Longrightarrow> wf_node (Dir (AList.update n t es))"
  by (auto simp: distinct_update dest: set_update_cases)

lemma wf_map_of: "wf_node (Dir es) \<Longrightarrow> map_of es n = Some t \<Longrightarrow> wf_node t"
  by (auto dest: map_of_SomeD)

lemma modify_dir_wf:
  assumes "modify_dir d f t = Inr t'" and "wf_node t"
    and "\<And>es es'. wf_node (Dir es) \<Longrightarrow> f es = Inr es' \<Longrightarrow> wf_node (Dir es')"
  shows "wf_node t'"
  using assms
proof (induction d f t arbitrary: t' rule: modify_dir.induct)
  case (2 f es)
  from "2.prems"(1) obtain es' where "f es = Inr es'" and "t' = Dir es'"
    by (auto simp: res_bind_eq_Inr)
  with "2.prems"(3) [OF "2.prems"(2)] show ?case by simp
next
  case (4 n d f es)
  from "4.prems"(1) obtain t0 t0' where t0: "map_of es n = Some t0" and m: "modify_dir d f t0 = Inr t0'"
    and t': "t' = Dir (AList.update n t0' es)"
    by (auto simp: res_bind_eq_Inr split: option.splits)
  from "4.prems"(2) t0 have "wf_node t0" by (rule wf_map_of)
  with "4.IH" [OF t0 m] "4.prems"(3) have "wf_node t0'" by blast
  with "4.prems"(2) t' wf_Dir_update show ?case by blast
next
  case (1 f c)
  then show ?case by simp
next
  case (3 n d f c)
  then show ?case by simp
qed

lemma write_file_wf: "write_file d n c t = Inr t' \<Longrightarrow> wf_node t \<Longrightarrow> wf_node t'"
  unfolding write_file_def
  by (erule modify_dir_wf) (auto simp: write_entry_Inr simp del: wf_node.simps(2) intro!: wf_Dir_update)

lemma makedirs_wf: "makedirs p t = Inr t' \<Longrightarrow> wf_node t \<Longrightarrow> wf_node t'"
proof (induction p t arbitrary: t' rule: makedirs.induct)
  case (4 n d es)
  then obtain t0' where m: "makedirs d (case map_of es n of None \<Rightarrow> Dir [] | Some t \<Rightarrow> t) = Inr t0'"
    and t': "t' = Dir (AList.update n t0' es)"
    by (auto simp: res_bind_eq_Inr)
  have "wf_node (case map_of es n of None \<Rightarrow> Dir [] | Some t \<Rightarrow> t)"
    using "4.prems"(2) by (auto simp: wf_map_of split: option.splits)
  with "4.IH" m have "wf_node t0'" by blast
  with "4.prems"(2) t' wf_Dir_update show ?case by blast
qed auto

lemma makedirs_isdir: "makedirs p t = Inr t' \<Longrightarrow> isdir t' p"
  by (induction p t arbitrary: t' rule: makedirs.induct)
     (auto simp: res_bind_eq_Inr isdir_def)

text \<open>\<open>makedirs\<close> creates directories only: the plain files are those there were.\<close>

lemma makedirs_files:
  "makedirs p t = Inr t' \<Longrightarrow> (lookup t' q = Some (File c)) = (lookup t q = Some (File c))"
proof (induction p t arbitrary: t' q rule: makedirs.induct)
  case (4 n d es)
  then obtain t0' where m: "makedirs d (case map_of es n of None \<Rightarrow> Dir [] | Some t \<Rightarrow> t) = Inr t0'"
    and t': "t' = Dir (AList.update n t0' es)"
    by (auto simp: res_bind_eq_Inr)
  show ?case
  proof (cases q)
    case Nil
    with t' show ?thesis by simp
  next
    case (Cons m q')
    show ?thesis
    proof (cases "m = n")
      case True
      have ih: "(lookup t0' q' = Some (File c))
            = (lookup (case map_of es n of None \<Rightarrow> Dir [] | Some t \<Rightarrow> t) q' = Some (File c))"
        using "4.IH" m by blast
      have lt': "lookup t' q = lookup t0' q'"
        using t' Cons True by simp
      show ?thesis
      proof (cases "map_of es n")
        case None
        have "lookup (Dir []) q' \<noteq> Some (File c)"
          by (cases q') auto
        with ih lt' None Cons True show ?thesis by simp
      next
        case (Some t0)
        with ih lt' Cons True show ?thesis by simp
      qed
    next
      case False
      with t' Cons show ?thesis by simp
    qed
  qed
next
  case (1 es)
  then show ?case by simp
next
  case (2 c)
  then show ?case by simp
next
  case (3 n d c)
  then show ?case by simp
qed

lemma copy_file_Inr:
  assumes "copy_file src dst t = Inr t'"
  shows "read_file t' (copy_dest t src dst) = read_file t src"
    and "p \<noteq> copy_dest t src dst \<Longrightarrow> read_file t' p = read_file t p"
proof -
  from assms obtain c where c: "read_file t src = Inr c"
    and w: "write_file (butlast (copy_dest t src dst)) (last (copy_dest t src dst)) c t = Inr t'"
    by (auto simp: copy_file_def Let_def res_bind_eq_Inr)
  have ne: "copy_dest t src dst \<noteq> []"
  proof
    assume e: "copy_dest t src dst = []"
    then have "dst = []" "\<not> isdir t []" by (auto simp: copy_dest_def split: if_splits)
    then obtain c0 where "t = File c0" by (cases t) (auto simp: isdir_def)
    with w e show False by (simp add: write_file_def)
  qed
  then have split: "butlast (copy_dest t src dst) @ [last (copy_dest t src dst)] = copy_dest t src dst"
    by (rule append_butlast_last_id)
  have r: "read_file t' q = (if q = copy_dest t src dst then Inr c else read_file t q)" for q
    using write_file_read [OF w, of q] unfolding split .
  show "read_file t' (copy_dest t src dst) = read_file t src"
    using r [of "copy_dest t src dst"] c by simp
  show "p \<noteq> copy_dest t src dst \<Longrightarrow> read_file t' p = read_file t p"
    using r [of p] by simp
qed


section \<open>Writing a sequence of files\<close>

lemma upd_files_Cons [simp]: "upd_files es (w # ws) = upd_files (AList.update (fst w) (File (snd w)) es) ws"
  by (simp add: upd_files_def)

lemma upd_files_Nil [simp]: "upd_files es [] = es"
  by (simp add: upd_files_def)

lemma map_of_upd_files: "map_of (upd_files es ws) = map_of es ++ files_map ws"
proof (induction ws arbitrary: es)
  case Nil
  then show ?case by (simp add: files_map_def)
next
  case (Cons w ws)
  have "map_of (upd_files es (w # ws)) = (map_of es)(fst w \<mapsto> File (snd w)) ++ files_map ws"
    by (simp only: upd_files_Cons Cons.IH update_conv')
  also have "\<dots> = map_of es ++ files_map (w # ws)"
    by (simp add: files_map_def map_add_upd[symmetric] map_add_assoc)
  finally show ?case .
qed

lemma keys_upd_files_present:
  "set (map fst ws) \<subseteq> set (map fst es) \<Longrightarrow> map fst (upd_files es ws) = map fst es"
proof (induction ws arbitrary: es)
  case (Cons w ws)
  then have k: "fst w \<in> set (map fst es)" by simp
  then have "map fst (AList.update (fst w) (File (snd w)) es) = map fst es"
    by (rule keys_update_present)
  with Cons show ?case by (metis insert_subset list.simps(15) list.simps(9) upd_files_Cons)
qed simp

lemma keys_upd_files: "set (map fst es) \<union> set (map fst ws) \<subseteq> set (map fst (upd_files es ws))"
proof (induction ws arbitrary: es)
  case (Cons w ws)
  have "set (map fst es) \<union> {fst w} \<subseteq> set (map fst (AList.update (fst w) (File (snd w)) es))"
    by (simp add: keys_update_set)
  with Cons.IH [of "AList.update (fst w) (File (snd w)) es"] show ?case
    by (simp add: keys_update_set)
qed simp

lemma distinct_upd_files: "distinct (map fst es) \<Longrightarrow> distinct (map fst (upd_files es ws))"
  by (induction ws arbitrary: es) (simp_all add: distinct_update)

lemma upd_files_idem: "distinct (map fst es) \<Longrightarrow> upd_files (upd_files es ws) ws = upd_files es ws"
proof (rule alist_eqI)
  show "map fst (upd_files (upd_files es ws) ws) = map fst (upd_files es ws)"
    using keys_upd_files [of es ws] by (intro keys_upd_files_present) auto
  show "map_of (upd_files (upd_files es ws) ws) = map_of (upd_files es ws)"
    by (simp add: map_of_upd_files map_add_absorb map_add_assoc)
  assume "distinct (map fst es)"
  then show "distinct (map fst (upd_files (upd_files es ws) ws))"
    by (intro distinct_upd_files)
qed

lemma write_entries_eq:
  "write_entries ws es =
     (if \<exists>w \<in> set ws. \<exists>m. map_of es (fst w) = Some (Dir m) then Inl IsADirectoryError
      else Inr (upd_files es ws))"
proof (induction ws arbitrary: es)
  case Nil
  then show ?case by (simp add: write_entries_def)
next
  case (Cons w ws)
  show ?case
  proof (cases "\<exists>m. map_of es (fst w) = Some (Dir m)")
    case True
    then show ?thesis by (auto simp: write_entries_def write_entry_def)
  next
    case False
    then have we: "write_entry (fst w) (snd w) es = Inr (AList.update (fst w) (File (snd w)) es)"
      by (simp add: write_entry_Inr)
    have cond: "(\<exists>v \<in> set ws. \<exists>m. map_of (AList.update (fst w) (File (snd w)) es) (fst v) = Some (Dir m))
                = (\<exists>v \<in> set ws. \<exists>m. map_of es (fst v) = Some (Dir m))"
    proof -
      have pt: "\<And>k. (\<exists>m. map_of (AList.update (fst w) (File (snd w)) es) k = Some (Dir m))
                 = (\<exists>m. map_of es k = Some (Dir m))"
        using False by (auto simp: update_conv')
      show ?thesis by (simp only: pt)
    qed
    have "write_entries (w # ws) es = write_entries ws (AList.update (fst w) (File (snd w)) es)"
      by (simp add: write_entries_def we)
    also have "\<dots> = (if \<exists>v \<in> set ws. \<exists>m. map_of es (fst v) = Some (Dir m) then Inl IsADirectoryError
      else Inr (upd_files (AList.update (fst w) (File (snd w)) es) ws))"
      by (simp only: Cons.IH cond)
    finally show ?thesis using False by simp
  qed
qed

lemma write_entries_idem:
  assumes "write_entries ws es = Inr es'" and "distinct (map fst es)"
  shows "write_entries ws es' = Inr es'"
proof -
  from assms(1) have es': "es' = upd_files es ws"
    and nd: "\<not> (\<exists>w \<in> set ws. \<exists>m. map_of es (fst w) = Some (Dir m))"
    by (simp_all add: write_entries_eq split: if_splits)
  have "\<not> (\<exists>w \<in> set ws. \<exists>m. map_of es' (fst w) = Some (Dir m))"
  proof
    assume "\<exists>w \<in> set ws. \<exists>m. map_of es' (fst w) = Some (Dir m)"
    then obtain w m where w: "w \<in> set ws" and d: "map_of es' (fst w) = Some (Dir m)" by blast
    from w have "fst w \<in> fst ` set (rev (map (\<lambda>w. (fst w, File (snd w))) ws))"
      by force
    then have "fst w \<in> dom (files_map ws)"
      by (simp only: files_map_def dom_map_of_conv_image_fst)
    then obtain v where v: "files_map ws (fst w) = Some v" by blast
    moreover have "\<forall>x \<in> ran (files_map ws). \<exists>c. x = File c"
      by (auto simp: files_map_def ran_def dest!: map_of_SomeD)
    ultimately obtain c where "v = File c" by (auto simp: ran_def)
    with d v es' show False by (simp add: map_of_upd_files)
  qed
  then show ?thesis
    using es' upd_files_idem [OF assms(2)] by (simp add: write_entries_eq)
qed

lemma modify_dir_bind:
  "modify_dir d (\<lambda>es. res_bind (f es) g) t = res_bind (modify_dir d f t) (modify_dir d g)"
proof (induction d f t rule: modify_dir.induct)
  case (2 f es)
  show ?case by (cases "f es") simp_all
next
  case (4 n d f es)
  show ?case
  proof (cases "map_of es n")
    case None
    then show ?thesis by simp
  next
    case (Some t0)
    show ?thesis
    proof (cases "modify_dir d f t0")
      case (Inl e)
      with Some "4.IH" [OF Some] show ?thesis by simp
    next
      case (Inr t1)
      with Some "4.IH" [OF Some] show ?thesis
        by (cases "modify_dir d g t1") simp_all
    qed
  qed
qed simp_all

lemma modify_dir_at:
  "lookup t d = Some (Dir es) \<Longrightarrow> f es = g es \<Longrightarrow> modify_dir d f t = modify_dir d g t"
  by (induction d f t rule: modify_dir.induct) (auto split: option.splits)

lemma modify_dir_Inl:
  "lookup t d = Some (Dir es) \<Longrightarrow> f es = Inl e \<Longrightarrow> modify_dir d f t = Inl e"
  by (induction d f t rule: modify_dir.induct) (auto split: option.splits)

lemma modify_dir_same:
  "lookup t d = Some (Dir es) \<Longrightarrow> f es = Inr es \<Longrightarrow> modify_dir d f t = Inr t"
  by (induction d f t rule: modify_dir.induct) (auto simp: update_same_value split: option.splits)

lemma modify_dir_result:
  assumes "modify_dir d f t = Inr t'"
  obtains es es' where "lookup t d = Some (Dir es)" and "f es = Inr es'" and "lookup t' d = Some (Dir es')"
proof -
  from modify_dir_Inr [OF assms] obtain es es' where "lookup t d = Some (Dir es)" and "f es = Inr es'"
    and "\<forall>q. lookup t' (d @ q) = lookup (Dir es') q" by blast
  moreover from this(3) have "lookup t' d = Some (Dir es')"
    by (metis append_Nil2 lookup.simps(1))
  ultimately show ?thesis using that by blast
qed

lemma write_all_modify:
  "isdir t d \<Longrightarrow> write_all d ws t = modify_dir d (write_entries ws) t"
proof (induction ws arbitrary: t)
  case Nil
  then obtain es where "lookup t d = Some (Dir es)"
    by (auto simp: isdir_def split: option.splits node.splits)
  then show ?case by (simp add: write_all_def write_entries_def modify_dir_same)
next
  case (Cons w ws)
  have we: "write_entries (w # ws) = (\<lambda>es. res_bind (write_entry (fst w) (snd w) es) (write_entries ws))"
    by (simp add: write_entries_def fun_eq_iff)
  have "modify_dir d (write_entries (w # ws)) t
      = res_bind (write_file d (fst w) (snd w) t) (modify_dir d (write_entries ws))"
    by (simp only: we modify_dir_bind write_file_def)
  also have "\<dots> = res_bind (write_file d (fst w) (snd w) t) (write_all d ws)"
  proof (cases "write_file d (fst w) (snd w) t")
    case (Inr t1)
    with Cons.prems have "isdir t1 d" by (simp add: write_file_isdir)
    with Inr show ?thesis by (simp add: Cons.IH)
  qed simp
  finally show ?case by (simp add: write_all_def)
qed

lemma wf_lookup: "wf_node t \<Longrightarrow> lookup t p = Some n \<Longrightarrow> wf_node n"
  by (induction t p rule: lookup.induct) (auto split: option.splits dest: wf_map_of)

lemma isdir_lookup: "isdir t p \<longleftrightarrow> (\<exists>es. lookup t p = Some (Dir es))"
  by (auto simp: isdir_def split: option.splits node.splits)

lemma sibling_not_prefix: "g \<noteq> f \<Longrightarrow> \<not> prefix (D @ [g]) (D @ [f])"
  by (auto simp: prefix_def)

lemma filter_keys_upd_files:
  "\<forall>w \<in> set ws. \<not> P (fst w) \<Longrightarrow> filter P (map fst (upd_files es ws)) = filter P (map fst es)"
  by (induction ws arbitrary: es) (simp_all add: filter_keys_update)

lemma files_map_None: "k \<notin> fst ` set ws \<Longrightarrow> files_map ws k = None"
  by (force simp: files_map_def map_of_eq_None_iff)

lemma wf_upd_files: "wf_node (Dir es) \<Longrightarrow> wf_node (Dir (upd_files es ws))"
proof (induction ws arbitrary: es)
  case (Cons w ws)
  have "wf_node (Dir (AList.update (fst w) (File (snd w)) es))"
    using Cons.prems by (rule wf_Dir_update) simp
  from Cons.IH [OF this] show ?case by simp
qed simp


section \<open>Monotonicity and frames of the updates\<close>

lemma write_file_exists: "write_file d n c t = Inr t' \<Longrightarrow> exists t p \<Longrightarrow> exists t' p"
  using write_file_lookup_cases [of d n c t t' p] by (auto simp: exists_def)

lemma write_file_fresh_files:
  assumes "write_file d n c t = Inr t'" and "\<not> exists t (d @ [n])" and "lookup t p = Some (File c0)"
  shows "lookup t' p = Some (File c0)"
  using write_file_lookup_cases [OF assms(1), of p] assms(2,3) by (auto simp: exists_def)

lemma write_file_parallel:
  "write_file d n c t = Inr t' \<Longrightarrow> \<not> prefix p d \<Longrightarrow> \<not> prefix d p \<Longrightarrow> lookup t' p = lookup t p"
  unfolding write_file_def by (rule modify_dir_parallel)

lemma makedirs_exists: "makedirs p t = Inr t' \<Longrightarrow> exists t q \<Longrightarrow> exists t' q"
proof (induction p t arbitrary: t' q rule: makedirs.induct)
  case (4 n d es)
  then obtain t0' where m: "makedirs d (case map_of es n of None \<Rightarrow> Dir [] | Some t \<Rightarrow> t) = Inr t0'"
    and t': "t' = Dir (AList.update n t0' es)"
    by (auto simp: res_bind_eq_Inr)
  show ?case
  proof (cases q)
    case (Cons m q')
    show ?thesis
    proof (cases "m = n")
      case True
      with "4.prems"(2) Cons obtain t0 where t0: "map_of es n = Some t0" and "exists t0 q'"
        by (auto simp: exists_def split: option.splits)
      with "4.IH" [of t0' q'] m t' Cons True show ?thesis by (simp add: exists_def)
    next
      case False
      with "4.prems"(2) t' Cons show ?thesis by (simp add: exists_def)
    qed
  qed (simp add: exists_def)
qed auto

lemma makedirs_lookup:
  "makedirs p t = Inr t' \<Longrightarrow> \<not> prefix q p \<Longrightarrow> lookup t' q = lookup t q"
proof (induction p t arbitrary: t' q rule: makedirs.induct)
  case (4 n d es)
  then obtain t0' where m: "makedirs d (case map_of es n of None \<Rightarrow> Dir [] | Some t \<Rightarrow> t) = Inr t0'"
    and t': "t' = Dir (AList.update n t0' es)"
    by (auto simp: res_bind_eq_Inr)
  show ?case
  proof (cases q)
    case Nil
    with "4.prems" show ?thesis by simp
  next
    case (Cons m q')
    show ?thesis
    proof (cases "m = n")
      case True
      with Cons "4.prems" have np: "\<not> prefix q' d" by auto
      then have "lookup (Dir []) q' = None" by (cases q') auto
      with np show ?thesis
        using "4.IH" [OF m] t' Cons True by (auto split: option.splits)
    next
      case False
      with Cons t' show ?thesis by simp
    qed
  qed
qed auto

lemma lookup_child:
  "lookup t (p @ [a]) = Some x \<Longrightarrow> \<exists>es. lookup t p = Some (Dir es) \<and> map_of es a = Some x"
  by (auto simp: lookup_append split: option.splits node.splits elim: lookup.elims)


lemma parallel_ext:
  assumes "\<not> prefix S Out" and "\<not> prefix Out S"
  shows "\<not> prefix (S @ q) (Out @ r) \<and> \<not> prefix (Out @ r) (S @ q)"
proof (intro conjI notI)
  assume "prefix (S @ q) (Out @ r)"
  from prefix_same_cases [OF append_prefixD [OF this] prefixI [OF refl]] assms show False
    by simp
next
  assume "prefix (Out @ r) (S @ q)"
  from prefix_same_cases [OF append_prefixD [OF this] prefixI [OF refl]] assms show False
    by simp
qed


lemma listdir_child:
  "lookup s (p @ [a]) = Some x \<Longrightarrow> listdir s p = Inr names \<Longrightarrow> a \<in> set names"
  by (force simp: listdir_def dest!: lookup_child map_of_SomeD)

end
