(* ===== verification/BoxDeriver.thy ===== *)
theory BoxDeriver
  imports PyStr
begin

text \<open>
  The box deriver: from the 21 normalised landmarks of the first detected hand and the
  image's pixel height and width, the YOLO box (centre and extent, normalised). Two
  variants exist in the repository:
  \<^item> the 36-class script (\<open>asl+sign digits detection/project_code/bounding_box_generation.py\<close>,
    lines 58--70) truncates the pixel extent with \<open>int()\<close> and neither pads nor clamps;
  \<^item> the 26-class script (\<open>asl_detection/project_code/bounding_box_generation.py\<close>,
    lines 60--91, repeated at 126--154) pads the extent, horizontally by 0.2 and
    vertically by 0.1, updating the lower bound first, and clamps it to the image.
  Both share the final normalisation (\<open>yolo_of_extent\<close>). The spec's contract for the
  deriver is \<open>spec_box\<close>: symmetric padding, clamping, normalisation.
\<close>

type_synonym landmark = "real \<times> real"

record yolo_box =
  x_center :: real
  y_center :: real
  box_w :: real
  box_h :: real

section \<open>The scripts' computation\<close>

text \<open>
  \<open>box_w = (x_max - x_min) / w\<close>, \<open>box_h = \<dots> / h\<close>, then the centres; a zero width
  or height raises ZeroDivisionError at the first division.
\<close>

definition yolo_of_extent :: "nat \<Rightarrow> nat \<Rightarrow> real \<Rightarrow> real \<Rightarrow> real \<Rightarrow> real \<Rightarrow> yolo_box res" where
  "yolo_of_extent h w x_min y_min x_max y_max =
     (if w = 0 \<or> h = 0 then Inl ZeroDivisionError
      else Inr \<lparr>x_center = (x_min + (x_max - x_min) / 2) / real w,
                y_center = (y_min + (y_max - y_min) / 2) / real h,
                box_w = (x_max - x_min) / real w,
                box_h = (y_max - y_min) / real h\<rparr>)"

text \<open>The landmarks in pixels: \<open>[lm.x * w for lm in ...]\<close>, \<open>[lm.y * h for lm in ...]\<close>.\<close>

definition x_coords :: "nat \<Rightarrow> landmark list \<Rightarrow> real list" where
  "x_coords w lms = map (\<lambda>lm. fst lm * real w) lms"

definition y_coords :: "nat \<Rightarrow> landmark list \<Rightarrow> real list" where
  "y_coords h lms = map (\<lambda>lm. snd lm * real h) lms"

text \<open>The 36-class deriver: \<open>x_min = int(min(x_coords))\<close> and so on, then normalised.\<close>

definition box_combined :: "nat \<Rightarrow> nat \<Rightarrow> landmark list \<Rightarrow> yolo_box res" where
  "box_combined h w lms =
     res_bind (py_min (x_coords w lms)) (\<lambda>x0.
     res_bind (py_min (y_coords h lms)) (\<lambda>y0.
     res_bind (py_max (x_coords w lms)) (\<lambda>x1.
     res_bind (py_max (y_coords h lms)) (\<lambda>y1.
       yolo_of_extent h w (of_int (py_int x0)) (of_int (py_int y0))
                          (of_int (py_int x1)) (of_int (py_int y1))))))"

text \<open>
  The padding step of the 26-class deriver, as the script writes it: the lower bound is
  moved first, and the upper bound is then moved by the fraction of the already widened
  extent (\<open>x_min -= (x_max - x_min) * p; x_max += (x_max - x_min) * p\<close>).
\<close>

definition pad_extent :: "real \<Rightarrow> real \<Rightarrow> real \<Rightarrow> real \<times> real" where
  "pad_extent p lo hi = (let lo' = lo - (hi - lo) * p in (lo', hi + (hi - lo') * p))"

definition width_padding :: real where
  "width_padding = 1/5"

definition height_padding :: real where
  "height_padding = 1/10"

definition box_padded :: "nat \<Rightarrow> nat \<Rightarrow> landmark list \<Rightarrow> yolo_box res" where
  "box_padded h w lms =
     res_bind (py_min (x_coords w lms)) (\<lambda>x0.
     res_bind (py_min (y_coords h lms)) (\<lambda>y0.
     res_bind (py_max (x_coords w lms)) (\<lambda>x1.
     res_bind (py_max (y_coords h lms)) (\<lambda>y1.
       (case (pad_extent width_padding x0 x1, pad_extent height_padding y0 y1) of
         ((x0', x1'), (y0', y1')) \<Rightarrow>
           yolo_of_extent h w (max 0 x0') (max 0 y0') (min (real w) x1') (min (real h) y1'))))))"

section \<open>The spec's contract\<close>

text \<open>
  Spec \<section>4.1: pad the extent \<open>[lo, hi]\<close> by \<open>(hi - lo) * p\<close> on both sides, clamp to
  the image, normalise. With \<open>p = 0\<close> this is the unpadded variant.
\<close>

definition spec_box :: "real \<Rightarrow> real \<Rightarrow> nat \<Rightarrow> nat \<Rightarrow> real \<Rightarrow> real \<Rightarrow> real \<Rightarrow> real \<Rightarrow> yolo_box" where
  "spec_box pw ph h w x0 y0 x1 y1 =
     (let a = max 0 (x0 - (x1 - x0) * pw); b = min (real w) (x1 + (x1 - x0) * pw);
          c = max 0 (y0 - (y1 - y0) * ph); d = min (real h) (y1 + (y1 - y0) * ph)
      in \<lparr>x_center = (a + (b - a) / 2) / real w, y_center = (c + (d - c) / 2) / real h,
          box_w = (b - a) / real w, box_h = (d - c) / real h\<rparr>)"

text \<open>A box is valid when its four numbers lie in the unit interval and it lies in the image.\<close>

definition valid_box :: "yolo_box \<Rightarrow> bool" where
  "valid_box b \<longleftrightarrow> 0 \<le> box_w b \<and> box_w b \<le> 1 \<and> 0 \<le> box_h b \<and> box_h b \<le> 1
     \<and> 0 \<le> x_center b \<and> x_center b \<le> 1 \<and> 0 \<le> y_center b \<and> y_center b \<le> 1
     \<and> 0 \<le> x_center b - box_w b / 2 \<and> x_center b + box_w b / 2 \<le> 1
     \<and> 0 \<le> y_center b - box_h b / 2 \<and> y_center b + box_h b / 2 \<le> 1"

text \<open>Landmarks inside the frame: both normalised coordinates in \<open>[0, 1]\<close>.\<close>

definition in_frame :: "landmark list \<Rightarrow> bool" where
  "in_frame lms \<longleftrightarrow> list_all (\<lambda>(x, y). 0 \<le> x \<and> x \<le> 1 \<and> 0 \<le> y \<and> y \<le> 1) lms"

section \<open>Bounds on the extent\<close>

lemma yolo_of_extent_valid:
  assumes "0 < w" "0 < h" "0 \<le> x0" "x0 \<le> x1" "x1 \<le> real w" "0 \<le> y0" "y0 \<le> y1" "y1 \<le> real h"
  shows "\<exists>b. yolo_of_extent h w x0 y0 x1 y1 = Inr b \<and> valid_box b"
  using assms by (auto simp: yolo_of_extent_def valid_box_def field_simps)

lemma x_coords_bounds:
  assumes "in_frame lms" and "v \<in> set (x_coords w lms)"
  shows "0 \<le> v \<and> v \<le> real w"
proof -
  from assms(2) obtain lm where lm: "lm \<in> set lms" and v: "v = fst lm * real w"
    by (auto simp: x_coords_def)
  from assms(1) lm have "0 \<le> fst lm" "fst lm \<le> 1"
    by (auto simp: in_frame_def list_all_iff)
  with v show ?thesis by (simp add: mult_left_le_one_le)
qed

lemma y_coords_bounds:
  assumes "in_frame lms" and "v \<in> set (y_coords h lms)"
  shows "0 \<le> v \<and> v \<le> real h"
proof -
  from assms(2) obtain lm where lm: "lm \<in> set lms" and v: "v = snd lm * real h"
    by (auto simp: y_coords_def)
  from assms(1) lm have "0 \<le> snd lm" "snd lm \<le> 1"
    by (auto simp: in_frame_def list_all_iff)
  with v show ?thesis by (simp add: mult_left_le_one_le)
qed

lemma extent_bounds:
  assumes "xs \<noteq> []" "\<And>v. v \<in> set xs \<Longrightarrow> 0 \<le> v \<and> v \<le> real w"
  shows "py_min xs = Inr (Min (set xs))" "py_max xs = Inr (Max (set xs))"
    "0 \<le> Min (set xs)" "Min (set xs) \<le> Max (set xs)" "Max (set xs) \<le> real w"
  using assms by (auto simp: py_min_Min py_max_Max)

lemma pad_extent_eq: "pad_extent p lo hi = (lo - (hi - lo) * p, hi + (hi - lo) * (p + p\<^sup>2))"
  by (simp add: pad_extent_def power2_eq_square algebra_simps)


lemma pad_clamp_ordered:
  assumes "0 \<le> a" "a \<le> b" "b \<le> W" "0 \<le> p" "pad_extent p a b = (a', b')"
  shows "0 \<le> max 0 a' \<and> max 0 a' \<le> min W b' \<and> min W b' \<le> W"
proof -
  have "0 \<le> (b - a) * p" "0 \<le> (b - a) * (p + p\<^sup>2)"
    using assms by simp_all
  with assms(5) have "a' \<le> a" "b \<le> b'" by (auto simp: pad_extent_eq)
  with assms(1-3) show ?thesis by linarith
qed

lemma extents_in_frame:
  assumes "in_frame lms" "lms \<noteq> []"
  shows "py_min (x_coords w lms) = Inr (Min (set (x_coords w lms)))"
    "py_max (x_coords w lms) = Inr (Max (set (x_coords w lms)))"
    "py_min (y_coords h lms) = Inr (Min (set (y_coords h lms)))"
    "py_max (y_coords h lms) = Inr (Max (set (y_coords h lms)))"
    "0 \<le> Min (set (x_coords w lms))" "Min (set (x_coords w lms)) \<le> Max (set (x_coords w lms))"
    "Max (set (x_coords w lms)) \<le> real w"
    "0 \<le> Min (set (y_coords h lms))" "Min (set (y_coords h lms)) \<le> Max (set (y_coords h lms))"
    "Max (set (y_coords h lms)) \<le> real h"
proof -
  have nx: "x_coords w lms \<noteq> []" and ny: "y_coords h lms \<noteq> []"
    using assms(2) by (simp_all add: x_coords_def y_coords_def)
  note bx = extent_bounds [OF nx x_coords_bounds [OF assms(1)]]
  note by' = extent_bounds [OF ny y_coords_bounds [OF assms(1)]]
  show "py_min (x_coords w lms) = Inr (Min (set (x_coords w lms)))"
    "py_max (x_coords w lms) = Inr (Max (set (x_coords w lms)))"
    "0 \<le> Min (set (x_coords w lms))" "Min (set (x_coords w lms)) \<le> Max (set (x_coords w lms))"
    "Max (set (x_coords w lms)) \<le> real w" using bx by blast+
  show "py_min (y_coords h lms) = Inr (Min (set (y_coords h lms)))"
    "py_max (y_coords h lms) = Inr (Max (set (y_coords h lms)))"
    "0 \<le> Min (set (y_coords h lms))" "Min (set (y_coords h lms)) \<le> Max (set (y_coords h lms))"
    "Max (set (y_coords h lms)) \<le> real h" using by' by blast+
qed


lemma py_int_extent:
  assumes "0 \<le> a" "a \<le> b" "b \<le> real w"
  shows "0 \<le> real_of_int (py_int a) \<and> real_of_int (py_int a) \<le> real_of_int (py_int b)
         \<and> real_of_int (py_int b) \<le> real w"
proof -
  have "\<lfloor>a\<rfloor> \<le> \<lfloor>b\<rfloor>" using assms(2) by (rule floor_mono)
  moreover have "\<lfloor>b\<rfloor> \<le> int w" using assms(3) by (simp add: le_floor_iff floor_le_iff)
  moreover have "0 \<le> \<lfloor>a\<rfloor>" using assms(1) by simp
  ultimately show ?thesis using assms by (simp add: py_int_nonneg)
qed

lemmas box_eval = box_padded_def box_combined_def x_coords_def y_coords_def py_min_def py_max_def
  pad_extent_def width_padding_def height_padding_def yolo_of_extent_def spec_box_def py_int_def

section \<open>Properties of the derived box\<close>

text \<open>C1. For landmarks inside the frame and an image of positive size, the 26-class
  deriver (padding, then clamping) returns a box whose centre and extent lie in [0, 1]
  and which lies inside the image.\<close>

theorem box_padded_valid:
  assumes "in_frame lms" "lms \<noteq> []" "0 < h" "0 < w"
  shows "\<exists>b. box_padded h w lms = Inr b \<and> valid_box b"
proof -
  note e = extents_in_frame [OF assms(1,2)]
  obtain x0 x1 where px: "pad_extent width_padding (Min (set (x_coords w lms))) (Max (set (x_coords w lms))) = (x0, x1)"
    by fastforce
  obtain y0 y1 where py: "pad_extent height_padding (Min (set (y_coords h lms))) (Max (set (y_coords h lms))) = (y0, y1)"
    by fastforce
  have ox: "0 \<le> max 0 x0 \<and> max 0 x0 \<le> min (real w) x1 \<and> min (real w) x1 \<le> real w"
    using pad_clamp_ordered [OF e(5-7) _ px] by (simp add: width_padding_def)
  have oy: "0 \<le> max 0 y0 \<and> max 0 y0 \<le> min (real h) y1 \<and> min (real h) y1 \<le> real h"
    using pad_clamp_ordered [OF e(8-10) _ py] by (simp add: height_padding_def)
  have "box_padded h w lms = yolo_of_extent h w (max 0 x0) (max 0 y0) (min (real w) x1) (min (real h) y1)"
    by (simp add: box_padded_def e(1-4) px py)
  with yolo_of_extent_valid [of w h] assms(3,4) ox oy show ?thesis by auto
qed

theorem box_padded_valid_witness:
  "in_frame [(1/4, 1/8), (1/2, 3/8)] \<and> [(1/4, 1/8), (1/2, 3/8)] \<noteq> [] \<and>
   (\<exists>b. box_padded 400 400 [(1/4, 1/8), (1/2, 3/8)] = Inr b \<and> valid_box b)"
proof -
  have h: "in_frame [(1/4, 1/8), (1/2, 3/8)]" "[(1/4, 1/8), (1/2, 3/8)] \<noteq> []" by (simp_all add: in_frame_def)
  show ?thesis using box_padded_valid [OF h, of 400 400] h by simp
qed

text \<open>C2. The same bound holds for the 36-class deriver, which truncates the pixel extent
  with \<open>int()\<close> and does not clamp: inside the frame the truncated extent stays in the
  image.\<close>

theorem box_combined_valid:
  assumes "in_frame lms" "lms \<noteq> []" "0 < h" "0 < w"
  shows "\<exists>b. box_combined h w lms = Inr b \<and> valid_box b"
proof -
  note e = extents_in_frame [OF assms(1,2)]
  have "box_combined h w lms = yolo_of_extent h w
      (of_int (py_int (Min (set (x_coords w lms))))) (of_int (py_int (Min (set (y_coords h lms)))))
      (of_int (py_int (Max (set (x_coords w lms))))) (of_int (py_int (Max (set (y_coords h lms)))))"
    by (simp add: box_combined_def e(1-4))
  with yolo_of_extent_valid [of w h] assms(3,4) py_int_extent [OF e(5-7)] py_int_extent [OF e(8-10)]
  show ?thesis by auto
qed

theorem box_combined_valid_witness:
  "in_frame [(1/4, 1/8), (1/2, 3/8)] \<and> [(1/4, 1/8), (1/2, 3/8)] \<noteq> [] \<and>
   (\<exists>b. box_combined 400 400 [(1/4, 1/8), (1/2, 3/8)] = Inr b \<and> valid_box b)"
proof -
  have h: "in_frame [(1/4, 1/8), (1/2, 3/8)]" "[(1/4, 1/8), (1/2, 3/8)] \<noteq> []" by (simp_all add: in_frame_def)
  show ?thesis using box_combined_valid [OF h, of 400 400] h by simp
qed

text \<open>C3. Refinement: inside the frame, the 36-class deriver computes the spec's box
  (\<section>4.1) with both padding fractions 0, taken over the truncated pixel extent; its
  missing clamp changes nothing there.\<close>

theorem box_combined_refines_spec:
  assumes "in_frame lms" "lms \<noteq> []" "0 < h" "0 < w"
  shows "box_combined h w lms = Inr (spec_box 0 0 h w
           (of_int \<lfloor>Min (set (x_coords w lms))\<rfloor>) (of_int \<lfloor>Min (set (y_coords h lms))\<rfloor>)
           (of_int \<lfloor>Max (set (x_coords w lms))\<rfloor>) (of_int \<lfloor>Max (set (y_coords h lms))\<rfloor>))"
proof -
  note e = extents_in_frame [OF assms(1,2)]
  note bx = py_int_extent [OF e(5-7)] and by' = py_int_extent [OF e(8-10)]
  have px: "py_int (Min (set (x_coords w lms))) = \<lfloor>Min (set (x_coords w lms))\<rfloor>"
    "py_int (Max (set (x_coords w lms))) = \<lfloor>Max (set (x_coords w lms))\<rfloor>"
    "py_int (Min (set (y_coords h lms))) = \<lfloor>Min (set (y_coords h lms))\<rfloor>"
    "py_int (Max (set (y_coords h lms))) = \<lfloor>Max (set (y_coords h lms))\<rfloor>"
    using e(5) [of w] e(6) [of w] e(8) [of h] e(9) [of h] by (simp_all add: py_int_nonneg)
  have bnd: "max 0 (real_of_int \<lfloor>Min (set (x_coords w lms))\<rfloor>) = real_of_int \<lfloor>Min (set (x_coords w lms))\<rfloor>"
    "min (real w) (real_of_int \<lfloor>Max (set (x_coords w lms))\<rfloor>) = real_of_int \<lfloor>Max (set (x_coords w lms))\<rfloor>"
    "max 0 (real_of_int \<lfloor>Min (set (y_coords h lms))\<rfloor>) = real_of_int \<lfloor>Min (set (y_coords h lms))\<rfloor>"
    "min (real h) (real_of_int \<lfloor>Max (set (y_coords h lms))\<rfloor>) = real_of_int \<lfloor>Max (set (y_coords h lms))\<rfloor>"
    using bx [of w] by' [of h] unfolding px by simp_all
  show ?thesis
    using assms(3,4)
    by (simp add: box_combined_def e(1-4) yolo_of_extent_def spec_box_def Let_def px bnd)
qed

theorem box_combined_refines_spec_witness:
  "in_frame [(1/4, 1/8), (1/2, 3/8)] \<and> [(1/4, 1/8), (1/2, 3/8)] \<noteq> [] \<and> box_combined 400 400 [(1/4, 1/8), (1/2, 3/8)] = Inr (spec_box 0 0 400 400
     (of_int \<lfloor>Min (set (x_coords 400 [(1/4, 1/8), (1/2, 3/8)]))\<rfloor>) (of_int \<lfloor>Min (set (y_coords 400 [(1/4, 1/8), (1/2, 3/8)]))\<rfloor>)
     (of_int \<lfloor>Max (set (x_coords 400 [(1/4, 1/8), (1/2, 3/8)]))\<rfloor>) (of_int \<lfloor>Max (set (y_coords 400 [(1/4, 1/8), (1/2, 3/8)]))\<rfloor>))"
proof -
  have h: "in_frame [(1/4, 1/8), (1/2, 3/8)]" "[(1/4, 1/8), (1/2, 3/8)] \<noteq> []" by (simp_all add: in_frame_def)
  show ?thesis using box_combined_refines_spec [OF h, of 400 400] h by simp
qed

text \<open>C4. The 26-class deriver pads asymmetrically: the lower bound moves by a fifth
  (a tenth) of the extent, the upper bound by \<open>0.2 * 1.2 = 0.24\<close> (\<open>0.1 * 1.1 = 0.11\<close>)
  of it, because the upper bound is moved after the lower one with the widened extent.
  The spec (\<section>4.1) describes symmetric padding.\<close>

theorem box_padded_asymmetric:
  assumes "in_frame lms" "lms \<noteq> []"
  shows "box_padded h w lms =
    (let a = Min (set (x_coords w lms)); b = Max (set (x_coords w lms));
         c = Min (set (y_coords h lms)); d = Max (set (y_coords h lms))
     in yolo_of_extent h w (max 0 (a - (b - a) / 5)) (max 0 (c - (d - c) / 10))
          (min (real w) (b + (b - a) * (6 / 25))) (min (real h) (d + (d - c) * (11 / 100))))"
proof -
  note e = extents_in_frame [OF assms(1,2)]
  show ?thesis
    by (simp add: box_padded_def e(1-4) pad_extent_eq width_padding_def height_padding_def
        Let_def power2_eq_square)
qed

theorem box_padded_asymmetric_witness:
  "in_frame [(1/4, 1/8), (1/2, 3/8)] \<and> [(1/4, 1/8), (1/2, 3/8)] \<noteq> [] \<and>
   box_padded 400 400 [(1/4, 1/8), (1/2, 3/8)] =
    (let a = Min (set (x_coords 400 [(1/4, 1/8), (1/2, 3/8)])); b = Max (set (x_coords 400 [(1/4, 1/8), (1/2, 3/8)]));
         c = Min (set (y_coords 400 [(1/4, 1/8), (1/2, 3/8)])); d = Max (set (y_coords 400 [(1/4, 1/8), (1/2, 3/8)]))
     in yolo_of_extent 400 400 (max 0 (a - (b - a) / 5)) (max 0 (c - (d - c) / 10))
          (min (real 400) (b + (b - a) * (6 / 25))) (min (real 400) (d + (d - c) * (11 / 100))))"
proof -
  have h: "in_frame [(1/4, 1/8), (1/2, 3/8)]" "[(1/4, 1/8), (1/2, 3/8)] \<noteq> []" by (simp_all add: in_frame_def)
  from box_padded_asymmetric [OF h, of 400 400] h show ?thesis by blast
qed

text \<open>The spec's worked example (\<section>8: landmarks spanning x in [100, 200], y in
  [50, 150] of a 400 x 400 image) does not hold for the code: the script emits centre
  (0.38, 0.25125) and extent (0.36, 0.3025), while the spec states (0.375, 0.25) and
  (0.35, 0.275); the spec's own symmetric formula gives (0.375, 0.25) and (0.35, 0.3).\<close>

lemma box_padded_spec_example:
  "box_padded 400 400 [(1/4, 1/8), (1/2, 3/8)] =
     Inr \<lparr>x_center = 19/50, y_center = 201/800, box_w = 9/25, box_h = 121/400\<rparr>
   \<and> spec_box (1/5) (1/10) 400 400 100 50 200 150 =
     \<lparr>x_center = 3/8, y_center = 1/4, box_w = 7/20, box_h = 3/10\<rparr>
   \<and> box_padded 400 400 [(1/4, 1/8), (1/2, 3/8)] \<noteq>
     Inr \<lparr>x_center = 3/8, y_center = 1/4, box_w = 7/20, box_h = 11/40\<rparr>"
  by (simp add: box_eval)

text \<open>C5. Out-of-frame landmarks (the landmark model reports coordinates beyond [0, 1]
  for a hand cut off by the image border): the clamps bound the lower edge only from
  below and the upper edge only from above, so the emitted width is negative exactly when
  the padded extent \<open>[a - (c - a)/5, c + 0.24 (c - a)]\<close> lies wholly beyond the right
  border or wholly before the left one; the script writes such a box unchecked.\<close>

theorem box_padded_negative_width:
  assumes "lms \<noteq> []" and "box_padded h w lms = Inr b"
  shows "box_w b < 0 \<longleftrightarrow>
    (let a = Min (set (x_coords w lms)); c = Max (set (x_coords w lms))
     in real w < a - (c - a) / 5 \<or> c + (c - a) * (6 / 25) < 0)"
proof -
  have nx: "x_coords w lms \<noteq> []" and ny: "y_coords h lms \<noteq> []"
    using assms(1) by (simp_all add: x_coords_def y_coords_def)
  define a where "a = Min (set (x_coords w lms))"
  define c where "c = Max (set (x_coords w lms))"
  have ac: "a \<le> c" using nx by (simp add: a_def c_def)
  obtain y0 y1 where py: "pad_extent height_padding (Min (set (y_coords h lms))) (Max (set (y_coords h lms))) = (y0, y1)"
    by fastforce
  have run: "box_padded h w lms = yolo_of_extent h w (max 0 (a - (c - a) / 5)) (max 0 y0)
      (min (real w) (c + (c - a) * (6 / 25))) (min (real h) y1)"
    using py nx ny
    by (simp add: box_padded_def py_min_Min py_max_Max a_def c_def pad_extent_eq width_padding_def power2_eq_square)
  with assms(2) have w: "0 < w" and bw: "box_w b = (min (real w) (c + (c - a) * (6 / 25)) - max 0 (a - (c - a) / 5)) / real w"
    by (auto simp: yolo_of_extent_def split: if_splits)
  have "a - (c - a) / 5 \<le> c + (c - a) * (6 / 25)" using ac by (simp add: field_simps)
  then have "min (real w) (c + (c - a) * (6 / 25)) < max 0 (a - (c - a) / 5) \<longleftrightarrow>
      real w < a - (c - a) / 5 \<or> c + (c - a) * (6 / 25) < 0"
    by linarith
  with w bw show ?thesis by (simp add: a_def [symmetric] c_def [symmetric] divide_less_0_iff)
qed

theorem box_padded_negative_width_witness:
  "\<exists>b. box_padded 400 400 [(5/4, 1/4), (3/2, 1/2)] = Inr b \<and> box_w b < 0"
proof -
  obtain b where r: "box_padded 400 400 [(5/4, 1/4), (3/2, 1/2)] = Inr b"
    by (simp add: box_padded_def x_coords_def y_coords_def py_min_def py_max_def pad_extent_def
        width_padding_def height_padding_def yolo_of_extent_def)
  have "box_w b < 0"
    using box_padded_negative_width [OF _ r] by (simp add: x_coords_def)
  with r show ?thesis by blast
qed

end
