(* ===== verification/LabelWriter.thy ===== *)
theory LabelWriter
  imports BoxDeriver
begin

text \<open>
  The label writer: the class vocabularies and their index maps, the YOLO label line
  \<open>f"{class_id} {x_center:.6f} {y_center:.6f} {box_w:.6f} {box_h:.6f}"\<close>, and the name of
  the label file (the image's base name with \<open>.txt\<close>). The reading side of the format
  (spec \<section>6), which the training tool implements and this repository does not, is
  given as \<open>parse_label\<close> to state the round trip.
\<close>

section \<open>Class vocabularies\<close>

text \<open>\<open>[str(i) for i in range(10)]\<close>, \<open>list(string.ascii_uppercase)\<close>, the extra labels.\<close>

definition digit_labels :: "string list" where
  "digit_labels = map str_nat [0..<10]"

definition letter_labels :: "string list" where
  "letter_labels = map (\<lambda>c. [c]) ''ABCDEFGHIJKLMNOPQRSTUVWXYZ''"

definition extra_labels :: "string list" where
  "extra_labels = [''del'', ''nothing'', ''space'']"

definition class_names_36 :: "string list" where
  "class_names_36 = digit_labels @ letter_labels @ extra_labels"

definition class_names_26 :: "string list" where
  "class_names_26 = letter_labels"

text \<open>
  \<open>{name: idx for idx, name in enumerate(class_names)}\<close>: one dictionary store per
  position, later positions overwriting earlier ones.
\<close>

fun class_map_from :: "nat \<Rightarrow> string list \<Rightarrow> (string \<rightharpoonup> nat) \<Rightarrow> (string \<rightharpoonup> nat)" where
  "class_map_from i [] m = m"
| "class_map_from i (n # ns) m = class_map_from (Suc i) ns (m(n \<mapsto> i))"

definition class_map :: "string list \<Rightarrow> (string \<rightharpoonup> nat)" where
  "class_map names = class_map_from 0 names Map.empty"

section \<open>The label line and the label file\<close>

definition yolo_line :: "nat \<Rightarrow> yolo_box \<Rightarrow> string" where
  "yolo_line class_id b =
     str_nat class_id @ '' '' @ fmt_fixed 6 (x_center b) @ '' '' @ fmt_fixed 6 (y_center b)
     @ '' '' @ fmt_fixed 6 (box_w b) @ '' '' @ fmt_fixed 6 (box_h b)"

text \<open>\<open>os.path.splitext(image_file)[0] + ".txt"\<close>.\<close>

definition label_name :: "string \<Rightarrow> string" where
  "label_name image_file = fst (splitext image_file) @ ''.txt''"

text \<open>The image filter: \<open>f.lower().endswith(('.jpg', '.jpeg', '.png'))\<close>.\<close>

definition image_exts :: "string list" where
  "image_exts = [''.jpg'', ''.jpeg'', ''.png'']"

definition is_image_name :: "string \<Rightarrow> bool" where
  "is_image_name f \<longleftrightarrow> ends_with_any (lower f) image_exts"

section \<open>Reading a label line back\<close>

fun split_on :: "char \<Rightarrow> string \<Rightarrow> string list" where
  "split_on c [] = [[]]"
| "split_on c (x # xs) = (if x = c then [] # split_on c xs
                          else (case split_on c xs of f # fs \<Rightarrow> (x # f) # fs | [] \<Rightarrow> [[x]]))"

definition parse_unsigned :: "string \<Rightarrow> real option" where
  "parse_unsigned s = (case split_on CHR ''.'' s of
      [i, f] \<Rightarrow> if i \<noteq> [] \<and> f \<noteq> [] \<and> list_all is_digit (i @ f)
                then Some (real (nat_of_digits i) + real (nat_of_digits f) / 10 ^ length f)
                else None
    | _ \<Rightarrow> None)"

definition parse_fixed :: "string \<Rightarrow> real option" where
  "parse_fixed s = (case s of
      c # t \<Rightarrow> if c = CHR ''-'' then map_option uminus (parse_unsigned t) else parse_unsigned s
    | [] \<Rightarrow> None)"

definition parse_label :: "string \<Rightarrow> (nat \<times> real list) option" where
  "parse_label s = (case split_on CHR '' '' s of
      [c, a, b, d, e] \<Rightarrow>
        if c \<noteq> [] \<and> list_all is_digit c
        then (case (parse_fixed a, parse_fixed b, parse_fixed d, parse_fixed e) of
                (Some a', Some b', Some d', Some e') \<Rightarrow> Some (nat_of_digits c, [a', b', d', e'])
              | _ \<Rightarrow> None)
        else None
    | _ \<Rightarrow> None)"

section \<open>Facts on numbers, fields and the vocabularies\<close>


lemma str_nat_length: "0 < k \<Longrightarrow> n < 10 ^ k \<Longrightarrow> length (str_nat n) \<le> k"
proof (induction n arbitrary: k rule: str_nat.induct)
  case (1 n)
  show ?case
  proof (cases "n < 10")
    case True
    with "1.prems" show ?thesis by (subst str_nat.simps) simp
  next
    case False
    then obtain k' where k: "k = Suc k'" using "1.prems" by (cases k) auto
    have "10 \<le> n" using False by simp
    with "1.prems" k have "n div 10 < 10 ^ k'" by (simp add: div_less_iff_less_mult mult.commute)
    moreover have "0 < k'"
      using "1.prems" k \<open>10 \<le> n\<close> by (cases k') auto
    ultimately have "length (str_nat (n div 10)) \<le> k'" using "1.IH" False by blast
    with False k show ?thesis by (subst str_nat.simps) simp
  qed
qed

lemma length_pad_zero: "length s \<le> d \<Longrightarrow> length (pad_zero d s) = d"
  by (simp add: pad_zero_def)

lemma digit_not_sep: "is_digit c \<Longrightarrow> c \<noteq> CHR ''.'' \<and> c \<noteq> CHR '' '' \<and> c \<noteq> CHR ''-''"
  by (auto simp: is_digit_def)

lemma pad_zero_digits: "\<forall>c \<in> set s. is_digit c \<Longrightarrow> \<forall>c \<in> set (pad_zero d s). is_digit c"
  by (auto simp: pad_zero_def is_digit_def)

lemma split_on_no_sep: "c \<notin> set xs \<Longrightarrow> split_on c xs = [xs]"
  by (induction xs) auto

lemma split_on_append_sep: "c \<notin> set xs \<Longrightarrow> split_on c (xs @ c # ys) = xs # split_on c ys"
  by (induction xs) (auto split: list.splits)

lemma round_half_even_nonneg: "0 \<le> r \<Longrightarrow> 0 \<le> round_half_even r"
  by (simp add: round_half_even_def Let_def)

lemma nat_of_digits_pad_zero [simp]: "nat_of_digits (pad_zero d s) = nat_of_digits s"
  by (simp add: pad_zero_def)

text \<open>The unsigned part of a printed number: integral digits, a point, six digits.\<close>

lemma fmt_fixed_6:
  "fmt_fixed 6 x = (if x < 0 then ''-'' else '''') @
     str_nat (nat (round_half_even (\<bar>x\<bar> * 10 ^ 6)) div 10 ^ 6) @ CHR ''.'' #
     pad_zero 6 (str_nat (nat (round_half_even (\<bar>x\<bar> * 10 ^ 6)) mod 10 ^ 6))"
  by (simp add: fmt_fixed_def Let_def)

lemma parse_unsigned_fmt:
  "parse_unsigned (str_nat (m div 10 ^ 6) @ CHR ''.'' # pad_zero 6 (str_nat (m mod 10 ^ 6)))
     = Some (real m / 10 ^ 6)"
proof -
  let ?i = "str_nat (m div 10 ^ 6)" and ?f = "pad_zero 6 (str_nat (m mod 10 ^ 6))"
  have di: "\<forall>c \<in> set ?i. is_digit c" by (rule str_nat_digits)
  have df: "\<forall>c \<in> set ?f. is_digit c" by (rule pad_zero_digits [OF str_nat_digits])
  have lf: "length ?f = 6"
    by (rule length_pad_zero, rule str_nat_length) simp_all
  have ni: "CHR ''.'' \<notin> set ?i" using di digit_not_sep by blast
  have nf: "CHR ''.'' \<notin> set ?f" using df digit_not_sep by blast
  have sp: "split_on CHR ''.'' (?i @ CHR ''.'' # ?f) = [?i, ?f]"
    using split_on_append_sep [OF ni, of ?f] split_on_no_sep [OF nf] by simp
  have fne: "?f \<noteq> []" using lf by auto
  have "real (m div 10 ^ 6) + real (m mod 10 ^ 6) / 10 ^ 6 = real m / 10 ^ 6"
  proof -
    have "real m = real (m div 10 ^ 6) * 10 ^ 6 + real (m mod 10 ^ 6)"
      by (metis div_mult_mod_eq of_nat_add of_nat_mult of_nat_numeral of_nat_power)
    then show ?thesis by (simp add: field_simps)
  qed
  with sp di df lf fne show ?thesis
    by (simp add: parse_unsigned_def list_all_iff ball_Un)
qed

theorem parse_fmt_fixed: "parse_fixed (fmt_fixed 6 x) = Some (rounded 6 x)"
proof -
  let ?r = "round_half_even (\<bar>x\<bar> * 10 ^ 6)"
  let ?m = "nat ?r"
  have r0: "0 \<le> ?r" by (rule round_half_even_nonneg) simp
  then have m: "real ?m = of_int ?r" by simp
  let ?u = "str_nat (?m div 10 ^ 6) @ CHR ''.'' # pad_zero 6 (str_nat (?m mod 10 ^ 6))"
  have pu: "parse_unsigned ?u = Some (real ?m / 10 ^ 6)" by (rule parse_unsigned_fmt)
  obtain c cs where u: "?u = c # cs" and cd: "is_digit c"
    using str_nat_digits [of "?m div 10 ^ 6"] str_nat_nonempty [of "?m div 10 ^ 6"]
    by (cases "str_nat (?m div 10 ^ 6)") auto
  show ?thesis
  proof (cases "x < 0")
    case True
    with pu m show ?thesis
      by (simp add: fmt_fixed_6 parse_fixed_def rounded_def)
  next
    case False
    have "c \<noteq> CHR ''-''" using cd digit_not_sep by blast
    with False pu m u show ?thesis
      by (simp add: fmt_fixed_6 parse_fixed_def rounded_def)
  qed
qed

lemma fmt_fixed_no_space: "CHR '' '' \<notin> set (fmt_fixed 6 x)"
  using str_nat_digits pad_zero_digits [OF str_nat_digits] digit_not_sep
  by (fastforce simp: fmt_fixed_6)
lemma rounded_close: "\<bar>rounded 6 x - x\<bar> \<le> 1 / (2 * 10 ^ 6)"
proof -
  let ?r = "round_half_even (\<bar>x\<bar> * 10 ^ 6)"
  have c: "\<bar>\<bar>x\<bar> * 10 ^ 6 - of_int ?r\<bar> \<le> 1/2" by (rule round_half_even_close)
  have c': "\<bar>of_int ?r - \<bar>x\<bar> * 10 ^ 6\<bar> \<le> 1/2" using c by (simp add: abs_minus_commute)
  have "\<bar>of_int ?r / 10 ^ 6 - \<bar>x\<bar>\<bar> = \<bar>of_int ?r - \<bar>x\<bar> * 10 ^ 6\<bar> / 10 ^ 6"
    by (simp add: field_simps)
  with c' have b: "\<bar>of_int ?r / 10 ^ 6 - \<bar>x\<bar>\<bar> \<le> 1 / (2 * 10 ^ 6)"
    by (simp add: divide_right_mono)
  define A where "A = of_int ?r / 10 ^ 6 - \<bar>x\<bar>"
  have bA: "\<bar>A\<bar> \<le> 1 / (2 * 10 ^ 6)" using b unfolding A_def .
  have eq: "rounded 6 x - x = (if x < 0 then -1 else 1) * A"
    unfolding A_def by (cases "x < 0") (simp_all add: rounded_def algebra_simps)
  show ?thesis using bA eq by (cases "x < 0") simp_all
qed



lemma class_map_from_eq:
  "distinct ns \<Longrightarrow> class_map_from i ns m = m ++ map_of (zip ns [i..<i + length ns])"
proof (induction ns arbitrary: i m)
  case Nil
  then show ?case by simp
next
  case (Cons a ns)
  let ?f = "map_of (zip ns [Suc i..<Suc i + length ns])"
  have up: "[i..<i + length (a # ns)] = i # [Suc i..<Suc i + length ns]"
    by (simp add: upt_conv_Cons del: upt_Suc)
  have na: "a \<notin> dom ?f"
    using Cons.prems by (simp add: dom_map_of_zip del: upt_Suc)
  have "class_map_from i (a # ns) m = m(a \<mapsto> i) ++ ?f"
    using Cons by simp
  also have "\<dots> = (m ++ ?f)(a \<mapsto> i)"
    using na by (rule map_add_upd_left)
  also have "\<dots> = m ++ map_of (zip (a # ns) [i..<i + length (a # ns)])"
    by (simp only: up zip_Cons_Cons map_of.simps(2) map_add_upd fst_conv snd_conv)
  finally show ?case .
qed

lemma class_map_eq: "distinct ns \<Longrightarrow> class_map ns = map_of (zip ns [0..<length ns])"
  by (simp add: class_map_def class_map_from_eq)

lemma class_map_nth: "distinct ns \<Longrightarrow> i < length ns \<Longrightarrow> class_map ns (ns ! i) = Some i"
  by (simp add: class_map_eq map_of_zip_nth)

lemma class_map_Some: "distinct ns \<Longrightarrow> class_map ns n = Some i \<Longrightarrow> i < length ns \<and> ns ! i = n"
proof -
  assume d: "distinct ns" and s: "class_map ns n = Some i"
  then have "(n, i) \<in> set (zip ns [0..<length ns])" by (auto simp: class_map_eq dest: map_of_SomeD)
  then obtain j where "j < length ns" "ns ! j = n" "[0..<length ns] ! j = i"
    by (auto simp: set_zip)
  then show ?thesis by simp
qed

lemma class_map_dom: "distinct ns \<Longrightarrow> dom (class_map ns) = set ns"
  by (simp add: class_map_eq dom_map_of_zip)

lemma distinct_class_names_36: "distinct class_names_36"
  by code_simp

lemma length_class_names_36: "length class_names_36 = 39"
  by (simp add: class_names_36_def digit_labels_def letter_labels_def extra_labels_def)

lemma distinct_class_names_26: "distinct class_names_26"
  by (simp add: class_names_26_def letter_labels_def)

section \<open>Properties of the label writer\<close>

text \<open>C6. Round trip: reading back a label line the writer produced gives the class index
  and the four box numbers, each rounded to six decimals as the format prints it.\<close>

theorem parse_yolo_line:
  "parse_label (yolo_line c b) =
     Some (c, [rounded 6 (x_center b), rounded 6 (y_center b), rounded 6 (box_w b), rounded 6 (box_h b)])"
proof -
  have nsc: "CHR '' '' \<notin> set (str_nat c)" using str_nat_digits digit_not_sep by blast
  have sp: "split_on CHR '' '' (yolo_line c b) =
      [str_nat c, fmt_fixed 6 (x_center b), fmt_fixed 6 (y_center b), fmt_fixed 6 (box_w b), fmt_fixed 6 (box_h b)]"
    by (simp add: yolo_line_def split_on_append_sep split_on_no_sep nsc fmt_fixed_no_space)
  show ?thesis
    using str_nat_digits [of c]
    by (simp add: parse_label_def sp parse_fmt_fixed list_all_iff)
qed

text \<open>C7. Precision: every number in a written label line is within half a unit of the
  sixth decimal of the box value it prints.\<close>

theorem yolo_line_precision:
  "\<exists>vs. parse_label (yolo_line c b) = Some (c, vs) \<and>
     list_all2 (\<lambda>v x. \<bar>v - x\<bar> \<le> 1 / (2 * 10 ^ 6)) vs [x_center b, y_center b, box_w b, box_h b]"
  using rounded_close [of "x_center b"] rounded_close [of "y_center b"]
    rounded_close [of "box_w b"] rounded_close [of "box_h b"]
  by (simp add: parse_yolo_line)

text \<open>The class vocabularies: each script's dictionary maps a name to an index exactly
  when the name stands at that position of its vocabulary (39 names in the 36-class
  script, 26 in the letters-only one); the same folder name gets different indices in
  the two vocabularies, so labels of one must not be read with the other.\<close>

lemma class_map_vocabularies:
  "(class_map class_names_36 n = Some i \<longleftrightarrow> i < 39 \<and> class_names_36 ! i = n)
   \<and> (class_map class_names_26 n = Some i \<longleftrightarrow> i < 26 \<and> class_names_26 ! i = n)
   \<and> class_map class_names_36 ''A'' = Some 10 \<and> class_map class_names_26 ''A'' = Some 0"
proof -
  have l26: "length class_names_26 = 26" by (simp add: class_names_26_def letter_labels_def)
  have a: "class_map class_names_36 ''A'' = Some 10 \<and> class_map class_names_26 ''A'' = Some 0"
    by code_simp
  have i36: "class_map class_names_36 n = Some i \<longleftrightarrow> i < 39 \<and> class_names_36 ! i = n"
    using class_map_Some [OF distinct_class_names_36, of n i]
      class_map_nth [OF distinct_class_names_36, of i] length_class_names_36 by auto
  have i26: "class_map class_names_26 n = Some i \<longleftrightarrow> i < 26 \<and> class_names_26 ! i = n"
    using class_map_Some [OF distinct_class_names_26, of n i]
      class_map_nth [OF distinct_class_names_26, of i] l26 by auto
  from i36 i26 a show ?thesis by blast
qed

end
