(* ===== verification/Labeling.thy ===== *)
theory Labeling
  imports LabelWriter FileSys
begin

text \<open>
  The labeling pass of the 36-class script
  (\<open>asl+sign digits detection/project_code/bounding_box_generation.py\<close>, lines 31--78):
  for every entry of the image directory that is a directory named in the vocabulary,
  for every image file of it (by the extension filter), read and decode the image, run
  the hand detector, derive the box of the first hand and write the label line to the
  image's \<open>.txt\<close> file beside it. Unreadable images and images without a hand are
  skipped; an exception from a write or from the box computation ends the run.

  The external collaborators are parameters: the image codec (\<open>cv2.imread\<close>'s decoding
  and the image's shape) and the detector. The script builds the detector with
  \<open>static_image_mode=True\<close>, in which MediaPipe treats every image on its own, so here
  it is a function from an image to its hands (each a list of landmarks).
\<close>

record 'i codec =
  imdecode :: "string \<Rightarrow> 'i option"
  img_hw :: "'i \<Rightarrow> nat \<times> nat"

type_synonym 'i detector = "'i \<Rightarrow> landmark list list"

text \<open>\<open>cv2.imread(path)\<close>: \<open>None\<close> for a missing path, a directory or undecodable bytes.\<close>

definition imread :: "'i codec \<Rightarrow> node \<Rightarrow> path \<Rightarrow> 'i option" where
  "imread C t p = (case read_file t p of Inr c \<Rightarrow> imdecode C c | Inl _ \<Rightarrow> None)"

text \<open>
  Lines 44--72 for one image: the label file name and line to write, \<open>None\<close> when the
  image is skipped (it does not load, or no hand is found).
\<close>

definition image_label ::
  "'i codec \<Rightarrow> 'i detector \<Rightarrow> nat \<Rightarrow> node \<Rightarrow> path \<Rightarrow> string \<Rightarrow> (string \<times> string) option res" where
  "image_label C det class_id t class_path image_file =
     (case imread C t (class_path @ [image_file]) of
        None \<Rightarrow> Inr None
      | Some img \<Rightarrow>
          (case det img of
             [] \<Rightarrow> Inr None
           | lms # _ \<Rightarrow>
               (case img_hw C img of (h, w) \<Rightarrow>
                  res_bind (box_combined h w lms)
                    (\<lambda>b. Inr (Some (label_name image_file, yolo_line class_id b))))))"

text \<open>Lines 44--78: the image's step, the label written with \<open>open(txt_path, "w")\<close>.\<close>

definition label_image_36 ::
  "'i codec \<Rightarrow> 'i detector \<Rightarrow> path \<Rightarrow> nat \<Rightarrow> node \<Rightarrow> string \<Rightarrow> node res" where
  "label_image_36 C det class_path class_id t image_file =
     res_bind (image_label C det class_id t class_path image_file)
       (\<lambda>r. case r of None \<Rightarrow> Inr t | Some (n, line) \<Rightarrow> write_file class_path n line t)"

text \<open>Lines 31--43: one entry of the image directory.\<close>

definition label_class_36 :: "'i codec \<Rightarrow> 'i detector \<Rightarrow> path \<Rightarrow> node \<Rightarrow> string \<Rightarrow> node res" where
  "label_class_36 C det image_dir t class_folder =
     (let class_path = image_dir @ [class_folder] in
      if \<not> isdir t class_path then Inr t
      else case class_map class_names_36 class_folder of
             None \<Rightarrow> Inr t
           | Some class_id \<Rightarrow>
               res_bind (listdir t class_path)
                 (\<lambda>names. for_each (label_image_36 C det class_path class_id)
                            (filter is_image_name names) t))"

text \<open>Line 31: the whole pass over \<open>os.listdir(IMAGE_DIR)\<close>.\<close>

definition label_pass_36 :: "'i codec \<Rightarrow> 'i detector \<Rightarrow> path \<Rightarrow> node \<Rightarrow> node res" where
  "label_pass_36 C det image_dir t =
     res_bind (listdir t image_dir) (\<lambda>folders. for_each (label_class_36 C det image_dir) folders t)"

section \<open>The pass as one directory update per class folder\<close>

text \<open>
  Views of the pass used in its proofs. \<open>labels_of\<close> collects, in order, the
  (label name, line) pairs the images of a folder produce, stopping at the first
  exception; \<open>class_dir\<close> is the change one class folder's loop makes to that folder's
  entry list (compute the labels from the images as they are, then write them);
  \<open>class_step\<close> is the iteration of line 31 expressed with it. The lemmas below show
  that the loops of the source succeed exactly when these views do, with the same result.
\<close>

fun labels_of ::
  "'i codec \<Rightarrow> 'i detector \<Rightarrow> nat \<Rightarrow> node \<Rightarrow> path \<Rightarrow> string list \<Rightarrow> (string \<times> string) list res" where
  "labels_of C det cid t P [] = Inr []"
| "labels_of C det cid t P (f # fs) =
     res_bind (image_label C det cid t P f)
       (\<lambda>r. res_bind (labels_of C det cid t P fs) (\<lambda>ws. Inr (case r of None \<Rightarrow> ws | Some w \<Rightarrow> w # ws)))"

definition class_dir ::
  "'i codec \<Rightarrow> 'i detector \<Rightarrow> nat \<Rightarrow> (string \<times> node) list \<Rightarrow> (string \<times> node) list res" where
  "class_dir C det cid es =
     res_bind (labels_of C det cid (Dir es) [] (filter is_image_name (map fst es)))
       (\<lambda>ws. write_entries ws es)"

definition class_step :: "'i codec \<Rightarrow> 'i detector \<Rightarrow> path \<Rightarrow> node \<Rightarrow> string \<Rightarrow> node res" where
  "class_step C det D t f =
     (if \<not> isdir t (D @ [f]) then Inr t
      else case class_map class_names_36 f of
             None \<Rightarrow> Inr t
           | Some cid \<Rightarrow> modify_dir (D @ [f]) (class_dir C det cid) t)"

section \<open>A sample image directory\<close>

text \<open>
  A decoder that fails on the bytes \<open>bad\<close>, 400 by 400 images, and a detector that finds
  one hand (two landmarks) in the image \<open>hand\<close>. The directory \<open>data\<close> holds the known
  class folder \<open>A\<close> (one image with a hand, one upper-case \<open>.PNG\<close> without, one that does
  not decode), the unknown folder \<open>misc\<close>, and a plain file.
\<close>

definition sample_codec :: "string codec" where
  "sample_codec = \<lparr>imdecode = (\<lambda>c. if c = ''bad'' then None else Some c), img_hw = (\<lambda>_. (400, 400))\<rparr>"

definition sample_detector :: "string detector" where
  "sample_detector i = (if i = ''hand'' then [[(1/4, 1/8), (1/2, 3/8)]] else [])"

definition sample_tree :: node where
  "sample_tree = Dir [(''data'', Dir [
     (''A'', Dir [(''a1.jpg'', File ''hand''), (''a2.PNG'', File ''none''), (''a3.jpg'', File ''bad'')]),
     (''misc'', Dir [(''m.jpg'', File ''hand'')]),
     (''notes.txt'', File ''x'')])]"

definition sample_labelled :: node where
  "sample_labelled = Dir [(''data'', Dir [
     (''A'', Dir [(''a1.jpg'', File ''hand''), (''a2.PNG'', File ''none''), (''a3.jpg'', File ''bad''),
                  (''a1.txt'', File ''10 0.375000 0.250000 0.250000 0.250000'')]),
     (''misc'', Dir [(''m.jpg'', File ''hand'')]),
     (''notes.txt'', File ''x'')])]"

section \<open>Labels are never images\<close>

lemma ends_with_last: "ends_with s suf \<Longrightarrow> suf \<noteq> [] \<Longrightarrow> last s = last suf"
  unfolding ends_with_def by (metis diff_less last_drop length_greater_0_conv less_le_trans)

lemma label_name_not_image: "\<not> is_image_name (label_name f)"
proof
  assume "is_image_name (label_name f)"
  then obtain suf where "suf \<in> set image_exts" and e: "ends_with (lower (label_name f)) suf"
    by (auto simp: is_image_name_def ends_with_any_def)
  moreover have "lower (label_name f) = lower (fst (splitext f)) @ ''.txt''"
    by (simp add: label_name_def lower_def lower_char_def)
  ultimately show False
    using ends_with_last [OF e] by (auto simp: image_exts_def)
qed

lemma image_label_read_cong:
  "read_file t' (P' @ [f]) = read_file t (P @ [f]) \<Longrightarrow>
     image_label C det cid t' P' f = image_label C det cid t P f"
  by (simp add: image_label_def imread_def)

lemma labels_of_read_cong:
  "(\<And>f. f \<in> set fs \<Longrightarrow> read_file t' (P' @ [f]) = read_file t (P @ [f])) \<Longrightarrow>
     labels_of C det cid t' P' fs = labels_of C det cid t P fs"
proof (induction fs)
  case (Cons f fs)
  have "image_label C det cid t' P' f = image_label C det cid t P f"
    by (rule image_label_read_cong) (simp add: Cons.prems)
  moreover have "labels_of C det cid t' P' fs = labels_of C det cid t P fs"
    using Cons.IH Cons.prems by simp
  ultimately show ?case by simp
qed simp

lemma labels_of_write:
  assumes "write_file P n c t = Inr t1" and "\<not> is_image_name n" and "\<forall>f \<in> set fs. is_image_name f"
  shows "labels_of C det cid t1 P fs = labels_of C det cid t P fs"
proof (rule labels_of_read_cong)
  fix f assume "f \<in> set fs"
  with assms(2,3) have "P @ [f] \<noteq> P @ [n]" by auto
  then show "read_file t1 (P @ [f]) = read_file t (P @ [f])"
    by (simp add: write_file_read [OF assms(1)])
qed

lemma image_label_name:
  "image_label C det cid t P f = Inr (Some w) \<Longrightarrow> fst w = label_name f"
  by (auto simp: image_label_def res_bind_eq_Inr split: option.splits list.splits prod.splits)

lemma labels_of_names:
  "labels_of C det cid t P fs = Inr ws \<Longrightarrow> \<forall>w \<in> set ws. \<not> is_image_name (fst w)"
proof (induction fs arbitrary: ws)
  case (Cons f fs)
  from Cons.prems obtain r ws' where r: "image_label C det cid t P f = Inr r"
    and ws': "labels_of C det cid t P fs = Inr ws'"
    and ws: "ws = (case r of None \<Rightarrow> ws' | Some w \<Rightarrow> w # ws')"
    by (auto simp: res_bind_eq_Inr)
  show ?case
  proof (cases r)
    case None
    with ws Cons.IH [OF ws'] show ?thesis by simp
  next
    case (Some w)
    with r have "fst w = label_name f" by (simp add: image_label_name)
    with Some ws Cons.IH [OF ws'] show ?thesis by (simp add: label_name_not_image)
  qed
qed simp

section \<open>One class folder's loop\<close>

text \<open>The loop of one class folder writes exactly the labels computed on the tree it starts from.\<close>

lemma label_loop_labels:
  assumes "labels_of C det cid t P fs = Inr ws" and "\<forall>f \<in> set fs. is_image_name f"
  shows "for_each (label_image_36 C det P cid) fs t = write_all P ws t"
  using assms
proof (induction fs arbitrary: t ws)
  case Nil
  then show ?case by (simp add: write_all_def)
next
  case (Cons f fs)
  from Cons.prems(1) obtain r ws' where r: "image_label C det cid t P f = Inr r"
    and ws': "labels_of C det cid t P fs = Inr ws'"
    and ws: "ws = (case r of None \<Rightarrow> ws' | Some w \<Rightarrow> w # ws')"
    by (auto simp: res_bind_eq_Inr)
  have imgs: "\<forall>f \<in> set fs. is_image_name f" using Cons.prems(2) by simp
  show ?case
  proof (cases r)
    case None
    with r have "label_image_36 C det P cid t f = Inr t" by (simp add: label_image_36_def)
    with None ws show ?thesis by (simp add: Cons.IH [OF ws' imgs])
  next
    case (Some w)
    obtain n c where w: "w = (n, c)" by fastforce
    from r Some w have "n = label_name f" using image_label_name by fastforce
    then have nimg: "\<not> is_image_name n" by (simp add: label_name_not_image)
    have step: "label_image_36 C det P cid t f = write_file P n c t"
      using r Some w by (simp add: label_image_36_def)
    show ?thesis
    proof (cases "write_file P n c t")
      case (Inl e)
      with step ws Some w show ?thesis by (simp add: write_all_def)
    next
      case (Inr t1)
      have "labels_of C det cid t1 P fs = Inr ws'"
        using labels_of_write [OF Inr nimg imgs, of C det cid] ws' by simp
      from Cons.IH [OF this imgs] step Inr ws Some w show ?thesis
        by (simp add: write_all_def)
    qed
  qed
qed

text \<open>When computing a label fails, so does the loop (possibly with an earlier write's error).\<close>

lemma label_loop_fails:
  assumes "labels_of C det cid t P fs = Inl e" and "\<forall>f \<in> set fs. is_image_name f"
  shows "\<exists>e'. for_each (label_image_36 C det P cid) fs t = Inl e'"
  using assms
proof (induction fs arbitrary: t)
  case Nil
  then show ?case by simp
next
  case (Cons f fs)
  have imgs: "\<forall>f \<in> set fs. is_image_name f" using Cons.prems(2) by simp
  show ?case
  proof (cases "image_label C det cid t P f")
    case (Inl e1)
    then show ?thesis by (simp add: label_image_36_def)
  next
    case (Inr r)
    with Cons.prems(1) have ws': "labels_of C det cid t P fs = Inl e"
      by (cases "labels_of C det cid t P fs") simp_all
    show ?thesis
    proof (cases r)
      case None
      with Inr have "label_image_36 C det P cid t f = Inr t" by (simp add: label_image_36_def)
      with Cons.IH [OF ws' imgs] show ?thesis by simp
    next
      case (Some w)
      obtain n c where w: "w = (n, c)" by fastforce
      from Inr Some w have "n = label_name f" using image_label_name by fastforce
      then have nimg: "\<not> is_image_name n" by (simp add: label_name_not_image)
      have step: "label_image_36 C det P cid t f = write_file P n c t"
        using Inr Some w by (simp add: label_image_36_def)
      show ?thesis
      proof (cases "write_file P n c t")
        case (Inl e2)
        with step show ?thesis by simp
      next
        case (Inr t1)
        have "labels_of C det cid t1 P fs = Inl e"
          using labels_of_write [OF Inr nimg imgs, of C det cid] ws' by simp
        from Cons.IH [OF this imgs] step Inr show ?thesis by simp
      qed
    qed
  qed
qed


section \<open>The class steps of the pass\<close>

lemma labels_of_at:
  assumes "lookup t P = Some (Dir es)"
  shows "labels_of C det cid t P fs = labels_of C det cid (Dir es) [] fs"
proof (rule labels_of_read_cong)
  fix f
  show "read_file t (P @ [f]) = read_file (Dir es) ([] @ [f])"
    using assms by (simp add: read_file_def lookup_append)
qed

lemma label_class_36_Inr_iff:
  "label_class_36 C det D t f = Inr t' \<longleftrightarrow> class_step C det D t f = Inr t'"
proof (cases "isdir t (D @ [f]) \<and> class_map class_names_36 f \<noteq> None")
  case False
  then show ?thesis by (auto simp: label_class_36_def class_step_def)
next
  case True
  then obtain cid es where cid: "class_map class_names_36 f = Some cid"
    and es: "lookup t (D @ [f]) = Some (Dir es)"
    by (auto simp: isdir_lookup)
  define fs where "fs = filter is_image_name (map fst es)"
  have imgs: "\<forall>f \<in> set fs. is_image_name f" by (simp add: fs_def)
  have lc: "label_class_36 C det D t f = for_each (label_image_36 C det (D @ [f]) cid) fs t"
    using True cid es by (simp add: label_class_36_def listdir_def fs_def)
  have cs: "class_step C det D t f = modify_dir (D @ [f]) (class_dir C det cid) t"
    using True cid by (simp add: class_step_def)
  have lab: "labels_of C det cid t (D @ [f]) fs = labels_of C det cid (Dir es) [] fs"
    using es by (rule labels_of_at)
  show ?thesis
  proof (cases "labels_of C det cid (Dir es) [] fs")
    case (Inl e)
    then have "class_dir C det cid es = Inl e" by (simp add: class_dir_def fs_def)
    with es have "modify_dir (D @ [f]) (class_dir C det cid) t = Inl e" by (rule modify_dir_Inl)
    moreover obtain e' where "for_each (label_image_36 C det (D @ [f]) cid) fs t = Inl e'"
      using label_loop_fails [OF _ imgs, of C det cid t "D @ [f]" e] lab Inl by auto
    ultimately show ?thesis using lc cs by simp
  next
    case (Inr ws)
    then have "class_dir C det cid es = write_entries ws es" by (simp add: class_dir_def fs_def)
    with es have "modify_dir (D @ [f]) (class_dir C det cid) t = modify_dir (D @ [f]) (write_entries ws) t"
      by (rule modify_dir_at)
    also have "\<dots> = write_all (D @ [f]) ws t"
      using True by (simp add: write_all_modify)
    also have "\<dots> = for_each (label_image_36 C det (D @ [f]) cid) fs t"
      using label_loop_labels [OF _ imgs, of C det cid t "D @ [f]" ws] lab Inr by simp
    finally show ?thesis using lc cs by simp
  qed
qed

lemma class_dir_Inr:
  assumes "class_dir C det cid es = Inr es'"
  obtains ws where "labels_of C det cid (Dir es) [] (filter is_image_name (map fst es)) = Inr ws"
    and "write_entries ws es = Inr es'" and "es' = upd_files es ws"
  using assms by (auto simp: class_dir_def res_bind_eq_Inr write_entries_eq split: if_splits)

lemma class_dir_idem:
  assumes cd: "class_dir C det cid es = Inr es'" and nd: "distinct (map fst es)"
  shows "class_dir C det cid es' = Inr es'"
proof -
  define fs where "fs = filter is_image_name (map fst es)"
  obtain ws where L: "labels_of C det cid (Dir es) [] fs = Inr ws"
    and W: "write_entries ws es = Inr es'" and es': "es' = upd_files es ws"
    using cd unfolding fs_def by (rule class_dir_Inr)
  have names: "\<forall>w \<in> set ws. \<not> is_image_name (fst w)"
    using L by (rule labels_of_names)
  then have fs': "filter is_image_name (map fst es') = fs"
    by (simp add: es' fs_def filter_keys_upd_files)
  have "labels_of C det cid (Dir es') [] fs = labels_of C det cid (Dir es) [] fs"
  proof (rule labels_of_read_cong)
    fix f assume "f \<in> set fs"
    then have "f \<notin> fst ` set ws" using names by (auto simp: fs_def)
    then show "read_file (Dir es') ([] @ [f]) = read_file (Dir es) ([] @ [f])"
      by (simp add: read_file_def es' map_of_upd_files map_add_def files_map_None)
  qed
  with L W fs' show ?thesis
    by (simp add: class_dir_def write_entries_idem [OF W nd])
qed

lemma class_dir_wf: "wf_node (Dir es) \<Longrightarrow> class_dir C det cid es = Inr es' \<Longrightarrow> wf_node (Dir es')"
proof -
  assume wf: "wf_node (Dir es)" and cd: "class_dir C det cid es = Inr es'"
  obtain ws where "es' = upd_files es ws" using cd by (rule class_dir_Inr)
  with wf_upd_files [OF wf, of ws] show ?thesis by simp
qed

lemma class_step_cases:
  assumes "class_step C det D t f = Inr t'"
  shows "t' = t \<or> (\<exists>cid. modify_dir (D @ [f]) (class_dir C det cid) t = Inr t'
                       \<and> class_map class_names_36 f = Some cid)"
  using assms by (auto simp: class_step_def split: if_splits option.splits)

lemma class_step_local:
  assumes "class_step C det D t f = Inr t'" and "g \<noteq> f"
  shows "lookup t' (D @ [g]) = lookup t (D @ [g])"
  using class_step_cases [OF assms(1)]
proof
  assume "\<exists>cid. modify_dir (D @ [f]) (class_dir C det cid) t = Inr t' \<and> class_map class_names_36 f = Some cid"
  then obtain cid where m: "modify_dir (D @ [f]) (class_dir C det cid) t = Inr t'" by blast
  from assms(2) have "f \<noteq> g" by simp
  then show ?thesis
    by (rule modify_dir_parallel [OF m sibling_not_prefix [OF assms(2)] sibling_not_prefix])
qed simp

lemma class_step_dep:
  assumes same: "class_step C det D t f = Inr t" and eq: "lookup t' (D @ [f]) = lookup t (D @ [f])"
  shows "class_step C det D t' f = Inr t'"
proof -
  have dir: "isdir t' (D @ [f]) = isdir t (D @ [f])" by (simp add: isdir_def eq)
  show ?thesis
  proof (cases "isdir t (D @ [f]) \<and> class_map class_names_36 f \<noteq> None")
    case False
    with dir show ?thesis by (auto simp: class_step_def)
  next
    case True
    then obtain cid where cid: "class_map class_names_36 f = Some cid" by blast
    with True same have m: "modify_dir (D @ [f]) (class_dir C det cid) t = Inr t"
      by (simp add: class_step_def)
    then obtain es es' where "lookup t (D @ [f]) = Some (Dir es)" and g: "class_dir C det cid es = Inr es'"
      and "lookup t (D @ [f]) = Some (Dir es')" by (rule modify_dir_result)
    then have es: "lookup t' (D @ [f]) = Some (Dir es)" and "class_dir C det cid es = Inr es"
      using eq by simp_all
    then have "modify_dir (D @ [f]) (class_dir C det cid) t' = Inr t'" by (rule modify_dir_same)
    with True dir cid show ?thesis by (simp add: class_step_def)
  qed
qed

lemma class_step_idem:
  assumes wf: "wf_node t" and st: "class_step C det D t f = Inr t1"
  shows "class_step C det D t1 f = Inr t1"
  using class_step_cases [OF st]
proof
  assume "t1 = t"
  with st show ?thesis by simp
next
  assume "\<exists>cid. modify_dir (D @ [f]) (class_dir C det cid) t = Inr t1 \<and> class_map class_names_36 f = Some cid"
  then obtain cid where m: "modify_dir (D @ [f]) (class_dir C det cid) t = Inr t1"
    and cid: "class_map class_names_36 f = Some cid" by blast
  obtain es es' where es: "lookup t (D @ [f]) = Some (Dir es)" and g: "class_dir C det cid es = Inr es'"
    and es': "lookup t1 (D @ [f]) = Some (Dir es')" using m by (rule modify_dir_result)
  have "distinct (map fst es)" using wf_lookup [OF wf es] by simp
  with g have "class_dir C det cid es' = Inr es'" by (rule class_dir_idem)
  with es' have "modify_dir (D @ [f]) (class_dir C det cid) t1 = Inr t1" by (rule modify_dir_same)
  with es' cid show ?thesis by (simp add: class_step_def isdir_def)
qed

lemma class_step_wf: "wf_node t \<Longrightarrow> class_step C det D t f = Inr t1 \<Longrightarrow> wf_node t1"
  by (drule class_step_cases) (auto elim: modify_dir_wf intro: class_dir_wf)

lemma class_step_listdir:
  assumes "class_step C det D t f = Inr t1"
  shows "listdir t1 D = listdir t D"
  using class_step_cases [OF assms]
proof
  assume "\<exists>cid. modify_dir (D @ [f]) (class_dir C det cid) t = Inr t1 \<and> class_map class_names_36 f = Some cid"
  then obtain cid where m: "modify_dir (D @ [f]) (class_dir C det cid) t = Inr t1" by blast
  have "strict_prefix D (D @ [f])" by (simp add: strict_prefix_def)
  from modify_dir_ancestor [OF m this] show ?thesis by (auto simp: listdir_def)
qed simp


lemma class_step_unknown:
  assumes "class_map class_names_36 f = None" and "class_step C det D s x = Inr s'"
  shows "lookup s' (D @ [f]) = lookup s (D @ [f])"
proof (cases "x = f")
  case True
  with assms show ?thesis by (auto simp: class_step_def split: if_splits)
next
  case False
  then have "f \<noteq> x" by simp
  with assms(2) show ?thesis by (rule class_step_local)
qed

text \<open>The pass is the loop of the class steps over the listing of the image directory.\<close>

lemma label_pass_36_steps:
  "label_pass_36 C det D t = Inr t' \<longleftrightarrow>
     (\<exists>folders. listdir t D = Inr folders \<and> for_each (class_step C det D) folders t = Inr t')"
proof -
  have "\<And>folders. for_each (label_class_36 C det D) folders t = Inr t'
          \<longleftrightarrow> for_each (class_step C det D) folders t = Inr t'"
    by (rule for_each_Inr_cong) (rule label_class_36_Inr_iff)
  then show ?thesis by (auto simp: label_pass_36_def res_bind_eq_Inr)
qed

lemma label_pass_36_folders:
  assumes "wf_node t" and "listdir t D = Inr folders"
  shows "distinct folders" and "lookup t (D @ [f]) \<noteq> None \<Longrightarrow> f \<in> set folders"
proof -
  from assms(2) obtain es where es: "lookup t D = Some (Dir es)" and fo: "folders = map fst es"
    by (auto simp: listdir_def split: option.splits node.splits)
  with assms(1) show "distinct folders" using wf_lookup by fastforce
  show "lookup t (D @ [f]) \<noteq> None \<Longrightarrow> f \<in> set folders"
    using es fo by (force simp: lookup_append dest: map_of_SomeD split: option.splits)
qed

section \<open>The sample run\<close>

lemma sample_box: "box_combined 400 400 [(1/4, 1/8), (1/2, 3/8)]
    = Inr \<lparr>x_center = 3/8, y_center = 1/4, box_w = 1/4, box_h = 1/4\<rparr>"
  by code_simp

lemma sample_class_A: "class_map class_names_36 ''A'' = Some 10"
  by code_simp

lemma sample_class_misc: "class_map class_names_36 ''misc'' = None"
  by code_simp

lemma sample_line: "yolo_line 10 \<lparr>x_center = 3/8, y_center = 1/4, box_w = 1/4, box_h = 1/4\<rparr>
    = ''10 0.375000 0.250000 0.250000 0.250000''"
  by (simp add: yolo_line_def fmt_fixed_def round_half_even_def str_nat_small str_nat_big
      digit_char_def pad_zero_def) code_simp

lemma sample_wf: "wf_node sample_tree"
  by (simp add: sample_tree_def)

lemma sample_run_36:
  "label_pass_36 sample_codec sample_detector [''data''] sample_tree = Inr sample_labelled"
  by (simp add: label_pass_36_def label_class_36_def label_image_36_def image_label_def imread_def
     sample_codec_def sample_detector_def sample_tree_def sample_labelled_def listdir_def isdir_def
     read_file_def write_file_def write_entry_def is_image_name_def ends_with_any_def ends_with_def
     image_exts_def lower_def lower_char_def label_name_def splitext_def last_dot_def
     sample_box sample_class_A sample_class_misc sample_line)

section \<open>Properties of the labeling pass\<close>

text \<open>
  C8. Idempotence (spec section 8): when the labeling pass succeeds on a well-formed
  tree, running it again on the tree it produced succeeds and changes nothing; in
  particular every label file it rewrites gets the same bytes.
\<close>

theorem label_pass_36_idempotent:
  assumes wf: "wf_node t" and run: "label_pass_36 C det D t = Inr t'"
  shows "label_pass_36 C det D t' = Inr t'"
proof -
  from run obtain folders where ld: "listdir t D = Inr folders"
    and cs: "for_each (class_step C det D) folders t = Inr t'"
    by (auto simp: label_pass_36_steps)
  have dist: "distinct folders" using label_pass_36_folders(1) [OF wf ld] .
  have "for_each (class_step C det D) folders t' = Inr t'"
    by (rule for_each_idem [where loc = "\<lambda>s f. lookup s (D @ [f])" and I = wf_node, OF _ _ _ _ cs dist wf])
       (erule (1) class_step_local class_step_dep class_step_idem class_step_wf)+
  moreover have "listdir t' D = Inr folders"
    by (rule for_each_invariant [where P = "\<lambda>s. listdir s D = Inr folders", OF _ ld cs])
       (simp add: class_step_listdir)
  ultimately show ?thesis by (auto simp: label_pass_36_steps)
qed

theorem label_pass_36_idempotent_witness:
  "label_pass_36 sample_codec sample_detector [''data''] sample_labelled = Inr sample_labelled"
  by (rule label_pass_36_idempotent [OF sample_wf sample_run_36])


text \<open>
  C9. What the pass writes: for a known class folder present when the pass starts, the
  pass computes the labels of the folder's images from the images as they were, and the
  folder at the end is the folder at the start with one label file per labeled image
  created or overwritten, the last write to a label name winning (two images with the
  same base name share one label file).
\<close>

theorem label_pass_36_class_result:
  assumes wf: "wf_node t" and run: "label_pass_36 C det D t = Inr t'"
    and es: "lookup t (D @ [f]) = Some (Dir es)" and cid: "class_map class_names_36 f = Some cid"
  shows "\<exists>ws. labels_of C det cid (Dir es) [] (filter is_image_name (map fst es)) = Inr ws
            \<and> lookup t' (D @ [f]) = Some (Dir (upd_files es ws))"
proof -
  from run obtain folders where ld: "listdir t D = Inr folders"
    and cs: "for_each (class_step C det D) folders t = Inr t'"
    by (auto simp: label_pass_36_steps)
  have dist: "distinct folders" and mem: "f \<in> set folders"
    using label_pass_36_folders [OF wf ld] es by auto
  obtain s1 s2 where l1: "lookup s1 (D @ [f]) = lookup t (D @ [f])"
    and st: "class_step C det D s1 f = Inr s2" and l2: "lookup t' (D @ [f]) = lookup s2 (D @ [f])"
    by (rule for_each_at [where loc = "\<lambda>s f. lookup s (D @ [f])", OF _ cs mem dist])
       (erule (1) class_step_local)
  from l1 es have "isdir s1 (D @ [f])" by (simp add: isdir_def)
  with st cid have "modify_dir (D @ [f]) (class_dir C det cid) s1 = Inr s2"
    by (simp add: class_step_def)
  then obtain es0 es' where "lookup s1 (D @ [f]) = Some (Dir es0)"
    and cd: "class_dir C det cid es0 = Inr es'" and "lookup s2 (D @ [f]) = Some (Dir es')"
    by (rule modify_dir_result)
  with l1 l2 es have cd': "class_dir C det cid es = Inr es'" and out: "lookup t' (D @ [f]) = Some (Dir es')"
    by simp_all
  obtain ws where "labels_of C det cid (Dir es) [] (filter is_image_name (map fst es)) = Inr ws"
    and "es' = upd_files es ws"
    using cd' by (rule class_dir_Inr)
  with out show ?thesis by blast
qed

theorem label_pass_36_class_result_witness:
  "\<exists>ws. labels_of sample_codec sample_detector 10
          (Dir [(''a1.jpg'', File ''hand''), (''a2.PNG'', File ''none''), (''a3.jpg'', File ''bad'')]) []
          (filter is_image_name [''a1.jpg'', ''a2.PNG'', ''a3.jpg'']) = Inr ws
     \<and> lookup sample_labelled [''data'', ''A'']
         = Some (Dir (upd_files [(''a1.jpg'', File ''hand''), (''a2.PNG'', File ''none''), (''a3.jpg'', File ''bad'')] ws))"
  using label_pass_36_class_result [OF sample_wf sample_run_36, of "''A''"
      "[(''a1.jpg'', File ''hand''), (''a2.PNG'', File ''none''), (''a3.jpg'', File ''bad'')]" 10]
  by (simp add: sample_tree_def sample_class_A)

text \<open>
  C10. Unknown folders (spec section 8): an entry of the image directory whose name is
  not in the vocabulary is left exactly as it was, whatever it contains.
\<close>

theorem label_pass_36_unknown_folder:
  assumes run: "label_pass_36 C det D t = Inr t'" and unk: "class_map class_names_36 f = None"
  shows "lookup t' (D @ [f] @ q) = lookup t (D @ [f] @ q)"
proof -
  from run obtain folders where cs: "for_each (class_step C det D) folders t = Inr t'"
    by (auto simp: label_pass_36_steps)
  have "lookup t' (D @ [f]) = lookup t (D @ [f])"
    by (rule for_each_invariant [where P = "\<lambda>s. lookup s (D @ [f]) = lookup t (D @ [f])", OF _ _ cs])
       (auto dest: class_step_unknown [OF unk])
  then show ?thesis using lookup_append [of t' "D @ [f]" q] lookup_append [of t "D @ [f]" q] by simp
qed

theorem label_pass_36_unknown_folder_witness:
  "lookup sample_labelled [''data'', ''misc'', ''m.jpg''] = lookup sample_tree [''data'', ''misc'', ''m.jpg'']
   \<and> lookup sample_labelled [''data'', ''misc''] = Some (Dir [(''m.jpg'', File ''hand'')])"
  using label_pass_36_unknown_folder [OF sample_run_36 sample_class_misc, of "[''m.jpg'']"]
    label_pass_36_unknown_folder [OF sample_run_36 sample_class_misc, of "[]"]
  by (simp add: sample_tree_def)

end
