(* ===== verification/Labeling26.thy ===== *)
theory Labeling26
  imports Labeling
begin

text \<open>
  The labeling script of the letters-only dataset
  (\<open>asl_detection/project_code/bounding_box_generation.py\<close>). Per class folder it first
  previews up to ten detections (box drawn, window shown, a key awaited), then asks on the
  console whether to generate the labels, and on \<open>yes\<close> labels the images
  \<open>image_files[preview_count:]\<close> with the padded, clamped box. The detector runs with
  \<open>static_image_mode=False\<close>: MediaPipe tracks the hand from one image to the next, so
  here it is a function of a tracker state, threaded through the whole run. The session
  state holds the file system, the tracker, the lines still to be read from standard
  input, and the log of the previews shown.
\<close>

type_synonym ('i, 'd) tracker = "'d \<Rightarrow> 'i \<Rightarrow> landmark list list \<times> 'd"

record 'd session =
  fs :: node
  tracker_state :: 'd
  stdin :: "string list"
  shown :: "string list"

text \<open>Lines 46--57 (and 112--123): read, decode, run the tracker, take the first hand.\<close>

definition track_image ::
  "'i codec \<Rightarrow> ('i, 'd) tracker \<Rightarrow> path \<Rightarrow> string \<Rightarrow> 'd session
     \<Rightarrow> (nat \<times> nat \<times> landmark list) option \<times> 'd session" where
  "track_image C trk P image_file st =
     (case imread C (fs st) (P @ [image_file]) of
        None \<Rightarrow> (None, st)
      | Some img \<Rightarrow>
          (case trk (tracker_state st) img of (hands, d') \<Rightarrow>
             let st' = st\<lparr>tracker_state := d'\<rparr> in
             case hands of
               [] \<Rightarrow> (None, st')
             | lms # _ \<Rightarrow> (case img_hw C img of (h, w) \<Rightarrow> (Some (h, w, lms), st'))))"

text \<open>
  Lines 41--104: the preview loop. It stops before the eleventh preview; an image that
  does not load or shows no hand is skipped without counting; the box of a detection is
  computed (and may raise) and the preview shown.
\<close>

fun preview_loop ::
  "'i codec \<Rightarrow> ('i, 'd) tracker \<Rightarrow> path \<Rightarrow> string list \<Rightarrow> nat \<Rightarrow> 'd session
     \<Rightarrow> (nat \<times> 'd session) res" where
  "preview_loop C trk P [] preview_count st = Inr (preview_count, st)"
| "preview_loop C trk P (image_file # rest) preview_count st =
     (if 10 \<le> preview_count then Inr (preview_count, st)
      else case track_image C trk P image_file st of
             (None, st') \<Rightarrow> preview_loop C trk P rest preview_count st'
           | (Some (h, w, lms), st') \<Rightarrow>
               res_bind (box_padded h w lms) (\<lambda>_.
                 preview_loop C trk P rest (preview_count + 1)
                   (st'\<lparr>shown := shown st' @ [image_file]\<rparr>)))"

text \<open>Line 108: \<open>input(...).strip().lower()\<close>; reading past the end raises EOFError.\<close>

definition ask_yes :: "'d session \<Rightarrow> (bool \<times> 'd session) res" where
  "ask_yes st = (case stdin st of
      [] \<Rightarrow> Inl EOFError
    | l # ls \<Rightarrow> Inr (lower (strip l) = ''yes'', st\<lparr>stdin := ls\<rparr>))"

text \<open>Lines 112--162: one image of the generation loop.\<close>

definition gen_image ::
  "'i codec \<Rightarrow> ('i, 'd) tracker \<Rightarrow> path \<Rightarrow> nat \<Rightarrow> 'd session \<Rightarrow> string \<Rightarrow> 'd session res" where
  "gen_image C trk P class_id st image_file =
     (case track_image C trk P image_file st of
        (None, st') \<Rightarrow> Inr st'
      | (Some (h, w, lms), st') \<Rightarrow>
          res_bind (box_padded h w lms) (\<lambda>b.
            res_bind (write_file P (label_name image_file) (yolo_line class_id b) (fs st'))
              (\<lambda>t. Inr (st'\<lparr>fs := t\<rparr>))))"

text \<open>Lines 30--162: one entry of the image directory.\<close>

definition label_class_26 ::
  "'i codec \<Rightarrow> ('i, 'd) tracker \<Rightarrow> path \<Rightarrow> 'd session \<Rightarrow> string \<Rightarrow> 'd session res" where
  "label_class_26 C trk D st class_folder =
     (let class_path = D @ [class_folder] in
      if \<not> isdir (fs st) class_path then Inr st
      else case class_map class_names_26 class_folder of
        None \<Rightarrow> Inr st
      | Some class_id \<Rightarrow>
          res_bind (listdir (fs st) class_path) (\<lambda>names.
            let image_files = filter is_image_name names in
            res_bind (preview_loop C trk class_path image_files 0 st) (\<lambda>(preview_count, st1).
              if 0 < preview_count
              then res_bind (ask_yes st1) (\<lambda>(yes, st2).
                     if yes then for_each (gen_image C trk class_path class_id) (drop preview_count image_files) st2
                     else Inr st2)
              else Inr st1)))"

text \<open>Line 29: the pass over \<open>os.listdir(IMAGE_DIR)\<close>.\<close>

definition label_pass_26 :: "'i codec \<Rightarrow> ('i, 'd) tracker \<Rightarrow> path \<Rightarrow> 'd session \<Rightarrow> 'd session res" where
  "label_pass_26 C trk D st =
     res_bind (listdir (fs st) D) (\<lambda>folders. for_each (label_class_26 C trk D) folders st)"

section \<open>A sample session\<close>

text \<open>
  A class folder of three images that all show a hand, a tracker that counts the frames
  it has seen, and the answer \<open>yes\<close> waiting on standard input.
\<close>

definition sample_tracker :: "(string, nat) tracker" where
  "sample_tracker d img = (if img = ''hand'' then [[(1/4, 1/8), (1/2, 3/8)]] else [], d + 1)"

definition sample_tree26 :: node where
  "sample_tree26 = Dir [(''data'', Dir [
     (''A'', Dir [(''a1.jpg'', File ''hand''), (''a2.jpg'', File ''hand''), (''a3.jpg'', File ''hand'')])])]"

definition sample_session26 :: "nat session" where
  "sample_session26 = \<lparr>fs = sample_tree26, tracker_state = 0, stdin = [''yes''], shown = []\<rparr>"

section \<open>What each phase changes\<close>

lemma track_image_fs: "track_image C trk P f st = (r, st') \<Longrightarrow> fs st' = fs st \<and> shown st' = shown st \<and> stdin st' = stdin st"
  by (auto simp: track_image_def Let_def split: option.splits prod.splits list.splits)

lemma preview_loop_Inr:
  "preview_loop C trk P files n st = Inr (n', st') \<Longrightarrow>
     fs st' = fs st \<and> stdin st' = stdin st \<and> n \<le> n'
     \<and> (n \<le> 10 \<longrightarrow> n' \<le> 10) \<and> (\<exists>ss. shown st' = shown st @ ss \<and> length ss = n' - n)"
proof (induction C trk P files n st arbitrary: n' st' rule: preview_loop.induct)
  case (2 C trk P f files n st)
  show ?case
  proof (cases "10 \<le> n")
    case True
    with "2.prems" show ?thesis by simp
  next
    case False
    obtain r st1 where tr: "track_image C trk P f st = (r, st1)" by fastforce
    note f1 = track_image_fs [OF tr]
    show ?thesis
    proof (cases r)
      case None
      with False tr "2.prems" have "preview_loop C trk P files n st1 = Inr (n', st')" by simp
      from "2.IH"(1) [OF False tr [symmetric] None this] f1 show ?thesis by simp
    next
      case (Some hwl)
      obtain h w lms where hwl: "hwl = (h, w, lms)" by (cases hwl) blast
      from False tr Some hwl "2.prems" obtain b where
        "preview_loop C trk P files (n + 1) (st1\<lparr>shown := shown st1 @ [f]\<rparr>) = Inr (n', st')"
        by (auto simp: res_bind_eq_Inr)
      from "2.IH"(2) [OF False tr [symmetric] Some hwl [symmetric] refl this] f1 False
      show ?thesis by (auto simp del: One_nat_def)
    qed
  qed
qed simp

lemma gen_image_shown: "gen_image C trk P cid st f = Inr st' \<Longrightarrow> shown st' = shown st"
  by (auto simp: gen_image_def res_bind_eq_Inr dest: track_image_fs split: option.splits prod.splits)

lemma gen_image_other:
  assumes "gen_image C trk P cid st f = Inr st'" and "n \<noteq> label_name f"
  shows "lookup (fs st') (P @ [n]) = lookup (fs st) (P @ [n])"
proof -
  obtain r st1 where tr: "track_image C trk P f st = (r, st1)" by fastforce
  note f1 = track_image_fs [OF tr]
  show ?thesis
  proof (cases r)
    case None
    with assms(1) tr f1 show ?thesis by (simp add: gen_image_def)
  next
    case (Some hwl)
    then obtain h w lms where "r = Some (h, w, lms)" by (cases hwl) blast
    with assms(1) tr obtain b t where w: "write_file P (label_name f) (yolo_line cid b) (fs st1) = Inr t"
      and st': "st' = st1\<lparr>fs := t\<rparr>"
      by (auto simp: gen_image_def res_bind_eq_Inr)
    have "P @ [n] \<noteq> P @ [label_name f]" using assms(2) by simp
    with write_file_lookup_cases [OF w, of "P @ [n]"] have "lookup t (P @ [n]) = lookup (fs st1) (P @ [n])"
      by (auto simp: strict_prefix_def prefix_def)
    with st' f1 show ?thesis by simp
  qed
qed


lemma ask_yes_Inr: "ask_yes st = Inr (y, st2) \<Longrightarrow> fs st2 = fs st \<and> shown st2 = shown st"
  by (auto simp: ask_yes_def split: list.splits)

lemma gen_loop_shown:
  "for_each (gen_image C trk P cid) files st = Inr st' \<Longrightarrow> shown st' = shown st"
  by (rule for_each_invariant [where P = "\<lambda>s. shown s = shown st"]) (auto dest: gen_image_shown)

lemma gen_loop_other:
  assumes "for_each (gen_image C trk P cid) files st = Inr st'" and "n \<notin> label_name ` set files"
  shows "lookup (fs st') (P @ [n]) = lookup (fs st) (P @ [n])"
  by (rule for_each_invariant [where P = "\<lambda>s. lookup (fs s) (P @ [n]) = lookup (fs st) (P @ [n])", OF _ _ assms(1)])
     (use assms(2) in \<open>auto dest: gen_image_other\<close>)

text \<open>The course of one class folder: skipped, or previewed and then possibly generated.\<close>

lemma label_class_26_cases:
  assumes "label_class_26 C trk D st c = Inr st'"
  shows "st' = st
    \<or> (\<exists>cid names pc st1. class_map class_names_26 c = Some cid
         \<and> listdir (fs st) (D @ [c]) = Inr names
         \<and> preview_loop C trk (D @ [c]) (filter is_image_name names) 0 st = Inr (pc, st1)
         \<and> (st' = st1 \<or> (\<exists>st2. fs st2 = fs st1 \<and> shown st2 = shown st1 \<and> (st' = st2
              \<or> for_each (gen_image C trk (D @ [c]) cid) (drop pc (filter is_image_name names)) st2 = Inr st'))))"
  using assms
  by (auto simp: label_class_26_def Let_def res_bind_eq_Inr dest!: ask_yes_Inr
      split: if_splits option.splits prod.splits)


lemma sample_class_A26: "class_map class_names_26 ''A'' = Some 0"
  by code_simp

lemma sample_box_padded:
  "box_padded 400 400 [(1/4, 1/8), (1/2, 3/8)]
     = Inr \<lparr>x_center = 19/50, y_center = 201/800, box_w = 9/25, box_h = 121/400\<rparr>"
  by code_simp

lemma sample_run_26:
  "label_class_26 sample_codec sample_tracker [''data''] sample_session26 ''A''
     = Inr \<lparr>fs = sample_tree26, tracker_state = 3, stdin = [], shown = [''a1.jpg'', ''a2.jpg'', ''a3.jpg'']\<rparr>"
  by (simp add: label_class_26_def sample_session26_def sample_tree26_def isdir_def listdir_def
      sample_class_A26 track_image_def imread_def read_file_def sample_codec_def sample_tracker_def
      sample_box_padded ask_yes_def is_image_name_def ends_with_any_def ends_with_def image_exts_def
      lower_def lower_char_def strip_def is_space_def)

section \<open>Properties of the 26-class labeling\<close>

text \<open>
  C18. Previews are bounded: one class folder adds at most ten entries to the preview
  log, whatever the folder holds.
\<close>

theorem label_class_26_previews_bounded:
  assumes "label_class_26 C trk D st c = Inr st'"
  shows "\<exists>ss. shown st' = shown st @ ss \<and> length ss \<le> 10"
  using label_class_26_cases [OF assms]
proof
  assume "\<exists>cid names pc st1. class_map class_names_26 c = Some cid
         \<and> listdir (fs st) (D @ [c]) = Inr names
         \<and> preview_loop C trk (D @ [c]) (filter is_image_name names) 0 st = Inr (pc, st1)
         \<and> (st' = st1 \<or> (\<exists>st2. fs st2 = fs st1 \<and> shown st2 = shown st1 \<and> (st' = st2
              \<or> for_each (gen_image C trk (D @ [c]) cid) (drop pc (filter is_image_name names)) st2 = Inr st')))"
  then obtain cid names pc st1 where pl: "preview_loop C trk (D @ [c]) (filter is_image_name names) 0 st = Inr (pc, st1)"
    and rest: "st' = st1 \<or> (\<exists>st2. fs st2 = fs st1 \<and> shown st2 = shown st1 \<and> (st' = st2
              \<or> for_each (gen_image C trk (D @ [c]) cid) (drop pc (filter is_image_name names)) st2 = Inr st'))"
    by blast
  from preview_loop_Inr [OF pl] obtain ss where "shown st1 = shown st @ ss" and "length ss \<le> 10"
    by auto
  moreover from rest have "shown st' = shown st1" by (auto dest: gen_loop_shown)
  ultimately show ?thesis by auto
qed simp

theorem label_class_26_previews_bounded_witness:
  "\<exists>ss. [''a1.jpg'', ''a2.jpg'', ''a3.jpg''] = [] @ ss \<and> length ss \<le> 10"
  using label_class_26_previews_bounded [OF sample_run_26] by (simp add: sample_session26_def)

text \<open>
  C19. Generation works by position, not by what was previewed: the labels a class run
  writes are exactly those of the images from position \<open>k\<close> of the filtered listing on,
  \<open>k\<close> the number of previews shown. Every other entry of the folder keeps its content, so
  the first \<open>k\<close> images (which include every previewed one, and possibly images that
  were skipped) never get a label from this run.
\<close>

theorem label_class_26_prefix_unlabeled:
  assumes run: "label_class_26 C trk D st c = Inr st'"
    and ld: "listdir (fs st) (D @ [c]) = Inr names"
    and n: "n \<notin> label_name ` set (drop (length (shown st') - length (shown st)) (filter is_image_name names))"
  shows "lookup (fs st') (D @ [c, n]) = lookup (fs st) (D @ [c, n])"
  using label_class_26_cases [OF run]
proof
  assume "\<exists>cid names' pc st1. class_map class_names_26 c = Some cid
         \<and> listdir (fs st) (D @ [c]) = Inr names'
         \<and> preview_loop C trk (D @ [c]) (filter is_image_name names') 0 st = Inr (pc, st1)
         \<and> (st' = st1 \<or> (\<exists>st2. fs st2 = fs st1 \<and> shown st2 = shown st1 \<and> (st' = st2
              \<or> for_each (gen_image C trk (D @ [c]) cid) (drop pc (filter is_image_name names')) st2 = Inr st')))"
  with ld obtain cid pc st1 where pl: "preview_loop C trk (D @ [c]) (filter is_image_name names) 0 st = Inr (pc, st1)"
    and rest: "st' = st1 \<or> (\<exists>st2. fs st2 = fs st1 \<and> shown st2 = shown st1 \<and> (st' = st2
              \<or> for_each (gen_image C trk (D @ [c]) cid) (drop pc (filter is_image_name names)) st2 = Inr st'))"
    by auto
  from preview_loop_Inr [OF pl] have f1: "fs st1 = fs st" and "length (shown st1) = length (shown st) + pc"
    by auto
  show ?thesis
    using rest
  proof (elim disjE exE conjE)
    fix st2 assume s2: "fs st2 = fs st1" "shown st2 = shown st1"
      and g: "for_each (gen_image C trk (D @ [c]) cid) (drop pc (filter is_image_name names)) st2 = Inr st'"
    from gen_loop_shown [OF g] s2 \<open>length (shown st1) = length (shown st) + pc\<close>
    have "length (shown st') - length (shown st) = pc" by simp
    with n have "n \<notin> label_name ` set (drop pc (filter is_image_name names))" by simp
    from gen_loop_other [OF g this] s2 f1 show ?thesis by simp
  qed (simp_all add: f1)
qed simp

theorem label_class_26_prefix_unlabeled_witness:
  "lookup sample_tree26 [''data'', ''A'', ''a1.txt''] = lookup sample_tree26 [''data'', ''A'', ''a1.txt'']
   \<and> lookup sample_tree26 [''data'', ''A'', ''a1.txt''] = None"
  using label_class_26_prefix_unlabeled [OF sample_run_26, of "[''a1.jpg'', ''a2.jpg'', ''a3.jpg'']" "''a1.txt''"]
  by (simp add: sample_session26_def sample_tree26_def listdir_def)


text \<open>
  C20. End of input at the prompt: when a known class folder has at least one preview
  and standard input is exhausted, \<open>input()\<close> raises EOFError and the run ends there.
\<close>

theorem label_class_26_eof:
  assumes "isdir (fs st) (D @ [c])" and "class_map class_names_26 c = Some cid"
    and "listdir (fs st) (D @ [c]) = Inr names"
    and pl: "preview_loop C trk (D @ [c]) (filter is_image_name names) 0 st = Inr (pc, st1)"
    and "0 < pc" and "stdin st = []"
  shows "label_class_26 C trk D st c = Inl EOFError"
proof -
  from preview_loop_Inr [OF pl] assms(6) have "ask_yes st1 = Inl EOFError"
    by (simp add: ask_yes_def)
  with assms show ?thesis by (simp add: label_class_26_def)
qed

lemma sample_preview_eof:
  "preview_loop sample_codec sample_tracker [''data'', ''A''] [''a1.jpg'', ''a2.jpg'', ''a3.jpg''] 0
     (sample_session26\<lparr>stdin := []\<rparr>)
   = Inr (3, \<lparr>fs = sample_tree26, tracker_state = 3, stdin = [], shown = [''a1.jpg'', ''a2.jpg'', ''a3.jpg'']\<rparr>)"
  by (simp add: sample_session26_def sample_tree26_def track_image_def imread_def read_file_def
      sample_codec_def sample_tracker_def sample_box_padded)

theorem label_class_26_eof_witness:
  "label_class_26 sample_codec sample_tracker [''data''] (sample_session26\<lparr>stdin := []\<rparr>) ''A'' = Inl EOFError"
proof (rule label_class_26_eof [OF _ sample_class_A26 _ _ _ _])
  show "isdir (fs (sample_session26\<lparr>stdin := []\<rparr>)) ([''data''] @ [''A''])"
    by (simp add: sample_session26_def sample_tree26_def isdir_def)
  show "listdir (fs (sample_session26\<lparr>stdin := []\<rparr>)) ([''data''] @ [''A'']) = Inr [''a1.jpg'', ''a2.jpg'', ''a3.jpg'']"
    by (simp add: sample_session26_def sample_tree26_def listdir_def)
  show "preview_loop sample_codec sample_tracker ([''data''] @ [''A''])
          (filter is_image_name [''a1.jpg'', ''a2.jpg'', ''a3.jpg'']) 0 (sample_session26\<lparr>stdin := []\<rparr>)
        = Inr (3, \<lparr>fs = sample_tree26, tracker_state = 3, stdin = [], shown = [''a1.jpg'', ''a2.jpg'', ''a3.jpg'']\<rparr>)"
    using sample_preview_eof
    by (simp add: is_image_name_def ends_with_any_def ends_with_def image_exts_def lower_def lower_char_def)
qed (simp_all add: sample_session26_def)

text \<open>
  A class whose images are all previewed gets no labels: in the sample folder of
  three images with a hand, all three are previewed, the user answers \<open>yes\<close>, and the
  generation loop runs over \<open>image_files[3:]\<close>, which is empty; the folder is left
  without any label file.
\<close>

lemma label_class_26_all_previewed_unlabeled:
  "\<exists>st'. label_class_26 sample_codec sample_tracker [''data''] sample_session26 ''A'' = Inr st'
     \<and> fs st' = fs sample_session26 \<and> stdin st' = [] \<and> shown st' = [''a1.jpg'', ''a2.jpg'', ''a3.jpg'']
     \<and> stdin sample_session26 = [''yes'']"
  using sample_run_26 by (simp add: sample_session26_def)

end
