(* ===== verification/Validator.thy ===== *)
theory Validator
  imports LabelWriter FileSys
begin

text \<open>
  The dataset validator
  (\<open>asl+sign digits detection/project_code/bounding_box_generation_validation.py\<close>): for
  every entry of the base folder in sorted order that is a directory, count the image
  files (by the case-insensitive extension filter) and those of them whose label file
  (base name plus \<open>.txt\<close>) exists, and print a row with the two counts and their
  difference. It only reads. Python's counters are unbounded integers; the difference is
  an \<open>int\<close> here so that nothing is hidden by truncating subtraction.
\<close>

record report_row =
  row_folder :: string
  row_total :: int
  row_labeled :: int
  row_missing :: int

text \<open>Lines 25--32: the loop over one folder's listing, with its two counters.\<close>

fun scan_files :: "node \<Rightarrow> path \<Rightarrow> string list \<Rightarrow> int \<times> int \<Rightarrow> int \<times> int" where
  "scan_files t P [] acc = acc"
| "scan_files t P (f # fs) (total_images, images_with_labels) =
     (if is_image_name f
      then scan_files t P fs (total_images + 1, if exists t (P @ [label_name f]) then images_with_labels + 1 else images_with_labels)
      else scan_files t P fs (total_images, images_with_labels))"

text \<open>Lines 18--35 for one entry: skipped unless a directory, else its row.\<close>

definition scan_folder :: "node \<Rightarrow> path \<Rightarrow> string \<Rightarrow> report_row list res" where
  "scan_folder t B subfolder =
     (let P = B @ [subfolder] in
      if \<not> isdir t P then Inr []
      else res_bind (listdir t P)
             (\<lambda>names. case scan_files t P names (0, 0) of (total_images, images_with_labels) \<Rightarrow>
                Inr [\<lparr>row_folder = subfolder, row_total = total_images, row_labeled = images_with_labels,
                      row_missing = total_images - images_with_labels\<rparr>]))"

text \<open>Line 17: \<open>for subfolder in sorted(os.listdir(base_folder))\<close>; the rows in print order.\<close>

fun scan_all :: "node \<Rightarrow> path \<Rightarrow> string list \<Rightarrow> report_row list res" where
  "scan_all t B [] = Inr []"
| "scan_all t B (s # ss) =
     res_bind (scan_folder t B s) (\<lambda>r. res_bind (scan_all t B ss) (\<lambda>rs. Inr (r @ rs)))"

definition validate :: "node \<Rightarrow> path \<Rightarrow> report_row list res" where
  "validate t B = res_bind (listdir t B) (\<lambda>names. scan_all t B (sort names))"

text \<open>The spec's counts (section 4.3): images of a folder, and those with a label file.\<close>

definition images_of :: "node \<Rightarrow> path \<Rightarrow> string list" where
  "images_of t P = (case listdir t P of Inr names \<Rightarrow> filter is_image_name names | Inl _ \<Rightarrow> [])"

definition labeled_of :: "node \<Rightarrow> path \<Rightarrow> string list" where
  "labeled_of t P = filter (\<lambda>f. exists t (P @ [label_name f])) (images_of t P)"

definition spec_row :: "node \<Rightarrow> path \<Rightarrow> string \<Rightarrow> report_row" where
  "spec_row t B s =
     \<lparr>row_folder = s, row_total = int (length (images_of t (B @ [s]))),
      row_labeled = int (length (labeled_of t (B @ [s]))),
      row_missing = int (length (images_of t (B @ [s]))) - int (length (labeled_of t (B @ [s])))\<rparr>"

text \<open>A sample dataset: two class folders listed out of order and a plain file.\<close>

definition sample_dataset :: node where
  "sample_dataset = Dir [(''yolo'', Dir [
     (''B'', Dir [(''b.jpg'', File ''x''), (''b.txt'', File ''0 0.5 0.5 0.1 0.1''), (''c.png'', File ''y'')]),
     (''A'', Dir [(''a.JPG'', File ''z'')]),
     (''readme'', File ''r'')])]"

section \<open>The counting loop\<close>

lemma scan_files_eq:
  "scan_files t P fs (a, b) =
     (a + int (length (filter is_image_name fs)),
      b + int (length (filter (\<lambda>f. exists t (P @ [label_name f])) (filter is_image_name fs))))"
  by (induction fs arbitrary: a b) auto

lemma scan_folder_eq:
  "scan_folder t B s = (if isdir t (B @ [s]) then Inr [spec_row t B s] else Inr [])"
proof (cases "isdir t (B @ [s])")
  case True
  then obtain es where es: "lookup t (B @ [s]) = Some (Dir es)" by (auto simp: isdir_lookup)
  then have "listdir t (B @ [s]) = Inr (map fst es)" by (simp add: listdir_def)
  with True show ?thesis
    by (simp add: scan_folder_def spec_row_def images_of_def labeled_of_def scan_files_eq)
qed (simp add: scan_folder_def)

lemma scan_all_eq:
  "scan_all t B ss = Inr (map (spec_row t B) (filter (\<lambda>s. isdir t (B @ [s])) ss))"
  by (induction ss) (simp_all add: scan_folder_eq)


lemma validate_eq:
  "validate t B = res_bind (listdir t B)
     (\<lambda>names. Inr (map (spec_row t B) (filter (\<lambda>s. isdir t (B @ [s])) (sort names))))"
  by (simp add: validate_def scan_all_eq)

lemma labeled_of_subset: "length (labeled_of t P) \<le> length (images_of t P)"
  by (simp add: labeled_of_def)

lemma sample_validate:
  "validate sample_dataset [''yolo''] = Inr
     [\<lparr>row_folder = ''A'', row_total = 1, row_labeled = 0, row_missing = 1\<rparr>,
      \<lparr>row_folder = ''B'', row_total = 2, row_labeled = 1, row_missing = 1\<rparr>]"
  by (simp add: validate_eq sample_dataset_def listdir_def isdir_def spec_row_def images_of_def
      labeled_of_def exists_def is_image_name_def ends_with_any_def ends_with_def image_exts_def
      lower_def lower_char_def label_name_def splitext_def last_dot_def) code_simp

section \<open>Properties of the validator\<close>

text \<open>
  C11. Refinement of the spec's report (section 4.3): the validator lists, in sorted
  order, exactly the directories among the base folder's entries, and for each reports
  the number of its image files, the number of those whose label file exists, and their
  difference; it raises only when the base folder itself cannot be listed.
\<close>

theorem validate_refines_spec:
  "validate t B = (case listdir t B of
      Inl e \<Rightarrow> Inl e
    | Inr names \<Rightarrow> Inr (map (spec_row t B) (filter (\<lambda>s. isdir t (B @ [s])) (sort names))))"
  by (simp add: validate_eq res_bind_def split: sum.splits)

text \<open>
  C12. The validator's invariant (spec section 8): in every row the labeled count is
  between 0 and the image count, and the missing count is their difference, hence
  not negative.
\<close>

theorem validate_row_invariant:
  assumes "validate t B = Inr rows" and "r \<in> set rows"
  shows "0 \<le> row_labeled r \<and> row_labeled r \<le> row_total r
       \<and> row_missing r = row_total r - row_labeled r \<and> 0 \<le> row_missing r"
proof -
  from assms obtain s where "r = spec_row t B s"
    by (auto simp: validate_eq res_bind_eq_Inr)
  then show ?thesis using labeled_of_subset [of t "B @ [s]"] by (simp add: spec_row_def)
qed

theorem validate_row_invariant_witness:
  "row_labeled (\<lparr>row_folder = ''A'', row_total = 1, row_labeled = 0, row_missing = 1\<rparr>)
     \<le> row_total (\<lparr>row_folder = ''A'', row_total = 1, row_labeled = 0, row_missing = 1\<rparr>)
   \<and> 0 \<le> row_missing (\<lparr>row_folder = ''A'', row_total = 1, row_labeled = 0, row_missing = 1\<rparr>)"
  using validate_row_invariant [OF sample_validate, of "\<lparr>row_folder = ''A'', row_total = 1, row_labeled = 0, row_missing = 1\<rparr>"]
  by simp

text \<open>C13. The rows come in sorted order of the folder names, each folder at most once.\<close>

theorem validate_sorted:
  assumes "validate t B = Inr rows" and "wf_node t"
  shows "sorted (map row_folder rows) \<and> distinct (map row_folder rows)"
proof -
  from assms(1) obtain names where ld: "listdir t B = Inr names"
    and rows: "rows = map (spec_row t B) (filter (\<lambda>s. isdir t (B @ [s])) (sort names))"
    by (auto simp: validate_eq res_bind_eq_Inr)
  from ld obtain es where "lookup t B = Some (Dir es)" and "names = map fst es"
    by (auto simp: listdir_def split: option.splits node.splits)
  with assms(2) have "distinct names" using wf_lookup by fastforce
  moreover have "map row_folder rows = filter (\<lambda>s. isdir t (B @ [s])) (sort names)"
    by (simp add: rows spec_row_def comp_def)
  ultimately show ?thesis by (simp add: sorted_filter [where f = id, simplified] distinct_filter)
qed

theorem validate_sorted_witness:
  "sorted [''A'', ''B''] \<and> distinct [''A'', ''B'']"
  using validate_sorted [OF sample_validate] by (simp add: sample_dataset_def)

end
