(* ===== verification/Splitter.thy ===== *)
theory Splitter
  imports LabelWriter FileSys
begin

text \<open>
  The dataset splitter (\<open>asl+sign digits detection/project_code/dataset_splitting.py\<close>):
  create the four output directories, then for every class folder of the source
  directory collect the base names of the images whose label file exists, shuffle them,
  send the first \<open>int(len * 0.8)\<close> to \<open>train\<close> and the rest to \<open>val\<close>, and copy each
  image (the first of \<open>.jpg\<close>, \<open>.jpeg\<close>, \<open>.png\<close> that exists under the base name) and its
  label into the flat output folders \<open>images/<split>\<close> and \<open>labels/<split>\<close>.

  \<open>random.shuffle\<close> is CPython's Fisher--Yates loop (\<open>Lib/random.py\<close>), drawing from
  \<open>randbelow\<close>; the generator is a parameter: a function from its state and a bound
  \<open>n\<close> to a draw and the next state, which a real generator keeps below \<open>n\<close>
  (\<open>valid_rng\<close>). The ratio \<open>0.8\<close> is the exact real 4/5: the double nearest to 0.8
  lies above it, so \<open>int(n * 0.8)\<close> equals the floor of \<open>4n/5\<close> for every list length
  a folder can have (below 2 to the power 50).
\<close>

type_synonym 's rng = "'s \<Rightarrow> nat \<Rightarrow> nat \<times> 's"

definition valid_rng :: "'s rng \<Rightarrow> bool" where
  "valid_rng rb \<longleftrightarrow> (\<forall>s n. 0 < n \<longrightarrow> fst (rb s n) < n)"

section \<open>\<open>random.shuffle\<close>\<close>

text \<open>\<open>x[i], x[j] = x[j], x[i]\<close>.\<close>

definition swap :: "'a list \<Rightarrow> nat \<Rightarrow> nat \<Rightarrow> 'a list" where
  "swap xs i j = xs[i := xs ! j, j := xs ! i]"

text \<open>\<open>for i in reversed(range(1, len(x))): j = randbelow(i + 1); swap\<close>, from \<open>i\<close> down to 1.\<close>

fun fisher_yates :: "'s rng \<Rightarrow> nat \<Rightarrow> 'a list \<Rightarrow> 's \<Rightarrow> 'a list \<times> 's" where
  "fisher_yates rb 0 xs s = (xs, s)"
| "fisher_yates rb (Suc i) xs s =
     (case rb s (Suc i + 1) of (j, s') \<Rightarrow> fisher_yates rb i (swap xs (Suc i) j) s')"

definition py_shuffle :: "'s rng \<Rightarrow> 'a list \<Rightarrow> 's \<Rightarrow> 'a list \<times> 's" where
  "py_shuffle rb xs s = fisher_yates rb (length xs - 1) xs s"

section \<open>One class folder\<close>

text \<open>Lines 12--13.\<close>

definition split_ratio :: real where
  "split_ratio = 4 / 5"

text \<open>Lines 29--35: the base names of the images whose \<open>base_name + ".txt"\<close> exists.\<close>

fun collect_valid :: "node \<Rightarrow> path \<Rightarrow> string list \<Rightarrow> string list" where
  "collect_valid t P [] = []"
| "collect_valid t P (f # fs) =
     (if is_image_name f \<and> exists t (P @ [fst (splitext f) @ ''.txt''])
      then fst (splitext f) # collect_valid t P fs
      else collect_valid t P fs)"

text \<open>Line 38: \<open>int(len(valid_images) * split_ratio)\<close>.\<close>

definition split_idx :: "nat \<Rightarrow> nat" where
  "split_idx n = nat (py_int (real n * split_ratio))"

text \<open>Lines 37--40: shuffle, then the two slices.\<close>

definition split_sets :: "'s rng \<Rightarrow> string list \<Rightarrow> 's \<Rightarrow> (string list \<times> string list) \<times> 's" where
  "split_sets rb valid_images s =
     (case py_shuffle rb valid_images s of (ys, s') \<Rightarrow>
        let i = split_idx (length ys) in ((take i ys, drop i ys), s'))"

text \<open>Lines 44--49: the first extension, in the tuple's order, under which the image exists.\<close>

fun find_image :: "node \<Rightarrow> path \<Rightarrow> string \<Rightarrow> string list \<Rightarrow> string option" where
  "find_image t P base [] = None"
| "find_image t P base (ext # exts) =
     (if exists t (P @ [base @ ext]) then Some (base @ ext) else find_image t P base exts)"

text \<open>Lines 44--58 for one base name: both copies when the image and the label exist.\<close>

definition copy_pair :: "path \<Rightarrow> path \<Rightarrow> string \<Rightarrow> node \<Rightarrow> string \<Rightarrow> node res" where
  "copy_pair P Out split_name t base_name =
     (case find_image t P base_name image_exts of
        None \<Rightarrow> Inr t
      | Some img \<Rightarrow>
          (let label = base_name @ ''.txt'' in
           if exists t (P @ [label])
           then res_bind (copy_file (P @ [img]) (Out @ [''images'', split_name, img]) t)
                  (copy_file (P @ [label]) (Out @ [''labels'', split_name, label]))
           else Inr t))"

text \<open>Lines 24--58 for one entry of the source directory; the generator's state is threaded.\<close>

definition split_class :: "'s rng \<Rightarrow> path \<Rightarrow> path \<Rightarrow> node \<times> 's \<Rightarrow> string \<Rightarrow> (node \<times> 's) res" where
  "split_class rb S Out ts class_folder =
     (case ts of (t, s) \<Rightarrow>
      let P = S @ [class_folder] in
      if \<not> isdir t P then Inr (t, s)
      else res_bind (listdir t P) (\<lambda>names.
             case split_sets rb (collect_valid t P names) s of ((train_set, val_set), s') \<Rightarrow>
               res_bind (for_each (copy_pair P Out ''train'') train_set t) (\<lambda>t1.
                 res_bind (for_each (copy_pair P Out ''val'') val_set t1) (\<lambda>t2. Inr (t2, s')))))"

text \<open>Lines 16--18: \<open>os.makedirs(..., exist_ok=True)\<close> for the four output folders.\<close>

definition make_output_dirs :: "path \<Rightarrow> node \<Rightarrow> node res" where
  "make_output_dirs Out t =
     for_each (\<lambda>t p. makedirs (Out @ p) t)
       [[''images'', ''train''], [''labels'', ''train''], [''images'', ''val''], [''labels'', ''val'']] t"

text \<open>The whole script.\<close>

definition split_dataset :: "'s rng \<Rightarrow> path \<Rightarrow> path \<Rightarrow> node \<Rightarrow> 's \<Rightarrow> (node \<times> 's) res" where
  "split_dataset rb S Out t s =
     res_bind (make_output_dirs Out t) (\<lambda>t1.
       res_bind (listdir t1 S) (\<lambda>folders. for_each (split_class rb S Out) folders (t1, s)))"

section \<open>Sample source trees\<close>

text \<open>
  A class folder holding two images with one base name (\<open>a.jpg\<close>, \<open>a.png\<close>) and their
  shared label, with the four output folders already made; and a class folder whose
  only image has an upper-case extension.
\<close>

definition sample_dup_tree :: node where
  "sample_dup_tree = Dir [
     (''src'', Dir [(''A'', Dir [(''a.jpg'', File ''jpg bytes''), (''a.png'', File ''png bytes''),
                                (''a.txt'', File ''0 0.5 0.5 0.2 0.2'')])]),
     (''out'', Dir [(''images'', Dir [(''train'', Dir []), (''val'', Dir [])]),
                    (''labels'', Dir [(''train'', Dir []), (''val'', Dir [])])])]"

definition sample_dup_result :: node where
  "sample_dup_result = Dir [
     (''src'', Dir [(''A'', Dir [(''a.jpg'', File ''jpg bytes''), (''a.png'', File ''png bytes''),
                                (''a.txt'', File ''0 0.5 0.5 0.2 0.2'')])]),
     (''out'', Dir [(''images'', Dir [(''train'', Dir [(''a.jpg'', File ''jpg bytes'')]),
                                      (''val'', Dir [(''a.jpg'', File ''jpg bytes'')])]),
                    (''labels'', Dir [(''train'', Dir [(''a.txt'', File ''0 0.5 0.5 0.2 0.2'')]),
                                      (''val'', Dir [(''a.txt'', File ''0 0.5 0.5 0.2 0.2'')])])])]"

definition sample_upper_tree :: node where
  "sample_upper_tree = Dir [
     (''src'', Dir [(''B'', Dir [(''b.PNG'', File ''png bytes''), (''b.txt'', File ''1 0.5 0.5 0.2 0.2'')])]),
     (''out'', Dir [(''images'', Dir [(''train'', Dir []), (''val'', Dir [])]),
                    (''labels'', Dir [(''train'', Dir []), (''val'', Dir [])])])]"

definition first_draw :: "nat rng" where
  "first_draw s n = (0, s + 1)"

section \<open>The shuffle permutes\<close>

lemma valid_rngD: "valid_rng rb \<Longrightarrow> 0 < n \<Longrightarrow> fst (rb s n) < n"
  by (simp add: valid_rng_def)

lemma mset_swap: "i < length xs \<Longrightarrow> j < length xs \<Longrightarrow> mset (swap xs i j) = mset xs"
  by (simp add: swap_def mset_swap)

lemma length_swap [simp]: "length (swap xs i j) = length xs"
  by (simp add: swap_def)

lemma fisher_yates_mset:
  "valid_rng rb \<Longrightarrow> i < length xs \<Longrightarrow> mset (fst (fisher_yates rb i xs s)) = mset xs"
proof (induction rb i xs s rule: fisher_yates.induct)
  case (2 rb i xs s)
  obtain j s' where r: "rb s (Suc i + 1) = (j, s')" by fastforce
  have "fst (rb s (Suc i + 1)) < Suc i + 1" using "2.prems"(1) by (rule valid_rngD) simp
  with r have "j < Suc i + 1" by simp
  with "2.prems"(2) have "mset (swap xs (Suc i) j) = mset xs" by (intro mset_swap) simp_all
  moreover have "mset (fst (fisher_yates rb i (swap xs (Suc i) j) s')) = mset (swap xs (Suc i) j)"
    using "2.IH" [OF r [symmetric] "2.prems"(1)] "2.prems"(2) by simp
  ultimately show ?case using r by simp
qed simp

lemma py_shuffle_mset: "valid_rng rb \<Longrightarrow> mset (fst (py_shuffle rb xs s)) = mset xs"
  by (cases xs) (simp_all add: py_shuffle_def fisher_yates_mset)


lemma py_shuffle_length [simp]: "valid_rng rb \<Longrightarrow> length (fst (py_shuffle rb xs s)) = length xs"
  using py_shuffle_mset [of rb xs s] by (metis size_mset)

lemma valid_first_draw: "valid_rng first_draw"
  by (simp add: valid_rng_def first_draw_def)

section \<open>The split point and the two slices\<close>

lemma split_idx_eq: "split_idx n = 4 * n div 5"
proof -
  have e: "real n * split_ratio = real (4 * n) / real (5::nat)" by (simp add: split_ratio_def)
  have "py_int (real n * split_ratio) = \<lfloor>real n * split_ratio\<rfloor>"
    by (rule py_int_nonneg) (simp add: split_ratio_def)
  also have "\<dots> = int (4 * n div 5)"
    unfolding e by (rule floor_divide_of_nat_eq)
  finally show ?thesis by (simp add: split_idx_def)
qed

lemma split_sets_eq:
  "split_sets rb v s = ((take (4 * length (fst (py_shuffle rb v s)) div 5) (fst (py_shuffle rb v s)),
                         drop (4 * length (fst (py_shuffle rb v s)) div 5) (fst (py_shuffle rb v s))),
                        snd (py_shuffle rb v s))"
  by (simp add: split_sets_def split_idx_eq Let_def split: prod.splits)

lemma shuffle_replicate:
  assumes "valid_rng rb"
  shows "fst (py_shuffle rb (replicate n x) s) = replicate n x"
proof -
  have m: "mset (fst (py_shuffle rb (replicate n x) s)) = mset (replicate n x)"
    using assms by (rule py_shuffle_mset)
  then have "\<forall>y \<in> set (fst (py_shuffle rb (replicate n x) s)). y = x"
    by (metis in_set_replicate set_mset_mset)
  moreover have "length (fst (py_shuffle rb (replicate n x) s)) = n"
    using assms by simp
  ultimately show ?thesis by (metis replicate_length_same)
qed


lemma sample_split_five:
  "split_sets first_draw [''a'', ''b'', ''c'', ''d'', ''e''] 0 = (([''b'', ''c'', ''d'', ''e''], [''a'']), 4)"
  by code_simp

lemma collect_dup:
  "collect_valid sample_dup_tree [''src'', ''A''] [''a.jpg'', ''a.png'', ''a.txt''] = replicate 2 ''a''"
  by code_simp

lemma split_class_eq:
  assumes "S @ [c] = P" and "isdir t P" and "listdir t P = Inr names"
    and "split_sets rb (collect_valid t P names) s = ((train_set, val_set), s')"
  shows "split_class rb S Out (t, s) c =
           res_bind (for_each (copy_pair P Out ''train'') train_set t) (\<lambda>t1.
             res_bind (for_each (copy_pair P Out ''val'') val_set t1) (\<lambda>t2. Inr (t2, s')))"
  using assms by (auto simp: split_class_def Let_def)

lemma res_bind_pair:
  "res_bind a b = Inr r \<Longrightarrow> res_bind a (\<lambda>t1. res_bind (b t1) (\<lambda>t2. Inr (t2, s'))) = Inr (r, s')"
  by (cases a) (auto simp: res_bind_eq_Inr)

lemma dup_copies:
  "res_bind (for_each (copy_pair [''src'', ''A''] [''out''] ''train'') [''a''] sample_dup_tree)
     (for_each (copy_pair [''src'', ''A''] [''out''] ''val'') [''a''])
   = Inr sample_dup_result"
  by code_simp

section \<open>Properties of the splitter\<close>

text \<open>
  C14. The split of one class (spec section 4.4, steps 2--3, and section 8): with any
  generator whose draws stay in range, train and val together are a permutation of the
  complete pairs' base names, train holds the first \<open>floor(4n/5)\<close> of them, and the two
  sizes add up to \<open>n\<close> (5 pairs give 4 and 1).
\<close>

theorem split_sets_partition:
  assumes rng: "valid_rng rb" and sp: "split_sets rb v s = ((train_set, val_set), s')"
  shows "mset (train_set @ val_set) = mset v \<and> length train_set = 4 * length v div 5
       \<and> length train_set + length val_set = length v"
proof -
  let ?ys = "fst (py_shuffle rb v s)"
  from sp have tr: "train_set = take (4 * length ?ys div 5) ?ys"
    and va: "val_set = drop (4 * length ?ys div 5) ?ys"
    by (simp_all add: split_sets_eq)
  have "mset ?ys = mset v" using rng by (rule py_shuffle_mset)
  moreover have "length ?ys = length v" using rng by simp
  ultimately show ?thesis by (simp add: tr va)
qed

theorem split_sets_partition_witness:
  "mset ([''b'', ''c'', ''d'', ''e''] @ [''a'']) = mset [''a'', ''b'', ''c'', ''d'', ''e'']
   \<and> length [''b'', ''c'', ''d'', ''e''] = 4 \<and> length [''a''] = (1::nat)"
  using split_sets_partition [OF valid_first_draw sample_split_five] by simp

text \<open>
  C15. Disjointness (spec section 8): when the base names are distinct, no base name
  goes to both train and val, and together they are all of them.
\<close>

theorem split_sets_disjoint:
  assumes rng: "valid_rng rb" and d: "distinct v" and sp: "split_sets rb v s = ((train_set, val_set), s')"
  shows "set train_set \<inter> set val_set = {} \<and> set train_set \<union> set val_set = set v"
proof -
  let ?ys = "fst (py_shuffle rb v s)"
  let ?k = "4 * length ?ys div 5"
  from sp have tr: "train_set = take ?k ?ys" and va: "val_set = drop ?k ?ys"
    by (simp_all add: split_sets_eq)
  have m: "mset ?ys = mset v" using rng by (rule py_shuffle_mset)
  then have "distinct ?ys" using mset_eq_imp_distinct_iff [OF m] d by simp
  then have "set (take ?k ?ys) \<inter> set (drop ?k ?ys) = {}"
    by (metis append_take_drop_id distinct_append)
  moreover have "set (take ?k ?ys) \<union> set (drop ?k ?ys) = set v"
    using m by (metis append_take_drop_id set_append set_mset_mset)
  ultimately show ?thesis by (simp only: tr va)
qed

theorem split_sets_disjoint_witness:
  "set [''b'', ''c'', ''d'', ''e''] \<inter> set [''a''] = {}"
  using split_sets_disjoint [OF valid_first_draw _ sample_split_five] by simp


text \<open>
  C16. Duplicate base names leak across the split (against spec section 8,
  \<open>train \<inter> val = \<emptyset>\<close>): a class folder with \<open>a.jpg\<close>, \<open>a.png\<close> and \<open>a.txt\<close> yields the
  base name \<open>a\<close> twice; whatever the generator draws, one copy goes to train and one to
  val, and \<open>a.jpg\<close> with its label is written into both splits.
\<close>

theorem split_class_duplicate_leak:
  assumes rng: "valid_rng rb"
  shows "split_class rb [''src''] [''out''] (sample_dup_tree, s) ''A''
           = Inr (sample_dup_result, snd (py_shuffle rb (replicate 2 ''a'') s))"
proof -
  have d: "isdir sample_dup_tree [''src'', ''A'']" by code_simp
  have l: "listdir sample_dup_tree [''src'', ''A''] = Inr [''a.jpg'', ''a.png'', ''a.txt'']" by code_simp
  have sp: "split_sets rb (replicate 2 ''a'') s = (([''a''], [''a'']), snd (py_shuffle rb (replicate 2 ''a'') s))"
    by (simp add: split_sets_eq shuffle_replicate [OF rng])
  have "split_class rb [''src''] [''out''] (sample_dup_tree, s) ''A''
      = res_bind (for_each (copy_pair [''src'', ''A''] [''out''] ''train'') [''a''] sample_dup_tree) (\<lambda>t1.
          res_bind (for_each (copy_pair [''src'', ''A''] [''out''] ''val'') [''a''] t1)
            (\<lambda>t2. Inr (t2, snd (py_shuffle rb (replicate 2 ''a'') s))))"
    by (rule split_class_eq [OF _ d l]) (simp_all only: append.simps collect_dup sp)
  also have "\<dots> = Inr (sample_dup_result, snd (py_shuffle rb (replicate 2 ''a'') s))"
    by (rule res_bind_pair [OF dup_copies])
  finally show ?thesis .
qed

theorem split_class_duplicate_leak_witness:
  "split_class first_draw [''src''] [''out''] (sample_dup_tree, 0) ''A'' = Inr (sample_dup_result, 1)"
  using split_class_duplicate_leak [OF valid_first_draw, of 0] by code_simp

lemma collect_valid_mem:
  "f \<in> set names \<Longrightarrow> is_image_name f \<Longrightarrow> exists t (P @ [fst (splitext f) @ ''.txt''])
     \<Longrightarrow> fst (splitext f) \<in> set (collect_valid t P names)"
  by (induction names) auto

lemma find_image_None:
  "\<forall>ext \<in> set exts. \<not> exists t (P @ [b @ ext]) \<Longrightarrow> find_image t P b exts = None"
  by (induction exts) auto

text \<open>
  C17. Case variants of an extension (spec section 4.4, steps 1 and 4): in any class
  folder, an image whose extension matches only case-insensitively (\<open>b.PNG\<close>) and
  whose label exists makes \<open>b\<close> a complete pair of the split, but when no image
  \<open>b.jpg\<close>, \<open>b.jpeg\<close>, \<open>b.png\<close> of that exact case exists, the copy of \<open>b\<close> into
  either split finds no image and copies nothing: the pair is in the split and in
  neither output folder.
\<close>

theorem split_case_variant_not_copied:
  assumes "f \<in> set names" and "is_image_name f" and "fst (splitext f) = b"
    and "exists t (P @ [b @ ''.txt''])" and "\<forall>ext \<in> set image_exts. \<not> exists t (P @ [b @ ext])"
  shows "b \<in> set (collect_valid t P names) \<and> copy_pair P Out split_name t b = Inr t"
  using collect_valid_mem [OF assms(1,2)] assms(3,4) find_image_None [OF assms(5)]
  by (simp add: copy_pair_def)

theorem split_case_variant_not_copied_witness:
  "''b'' \<in> set (collect_valid sample_upper_tree [''src'', ''B''] [''b.PNG'', ''b.txt''])
   \<and> copy_pair [''src'', ''B''] [''out''] ''val'' sample_upper_tree ''b'' = Inr sample_upper_tree"
proof -
  have h: "''b.PNG'' \<in> set [''b.PNG'', ''b.txt'']" "is_image_name ''b.PNG''" "fst (splitext ''b.PNG'') = ''b''"
    "exists sample_upper_tree ([''src'', ''B''] @ [''b'' @ ''.txt''])"
    "\<forall>ext \<in> set image_exts. \<not> exists sample_upper_tree ([''src'', ''B''] @ [''b'' @ ext])"
    by code_simp+
  from split_case_variant_not_copied [OF h] show ?thesis .
qed

end
