(* ===== verification/ImageExtraction.thy ===== *)
theory ImageExtraction
  imports LabelWriter FileSys
begin

text \<open>
  The image extraction scripts that fill \<open>data/yolo_images\<close> before labeling.
  \<open>asl+sign digits detection/project_code/image_extraction.py\<close> saves every sample of the
  sign-language digits arrays (\<open>X.npy\<close>, one-hot labels \<open>Y.npy\<close>) as
  \<open><label>/<label><n>.jpg\<close>, numbering each label's samples from 1 with a dictionary of
  counters, and then copies the ASL alphabet images folder by folder, skipping files
  already present; \<open>asl_detection/project_code/image_extraction.py\<close> is the copy alone,
  from another source folder. The arrays are the values \<open>np.load\<close> returned (\<open>X\<close> a
  list of samples, \<open>Y\<close> a list of rows of reals); the pixel work on a sample
  (\<open>Image.fromarray\<close>, \<open>convert\<close>, \<open>resize\<close>, \<open>save\<close>) is a parameter \<open>save\<close> from a sample
  to the bytes written, and \<open>Image.open(...).convert(...).resize(...)\<close> a parameter
  \<open>conv\<close> from the source bytes to the bytes written, \<open>None\<close> where PIL raises.
\<close>

section \<open>Part 1: the digits arrays\<close>

text \<open>\<open>np.argmax\<close> on a row: a scan that keeps the first index of the largest entry.\<close>

fun argmax_acc :: "real list \<Rightarrow> nat \<Rightarrow> nat \<Rightarrow> real \<Rightarrow> nat" where
  "argmax_acc [] i best best_v = best"
| "argmax_acc (x # xs) i best best_v =
     (if best_v < x then argmax_acc xs (Suc i) i x else argmax_acc xs (Suc i) best best_v)"

text \<open>\<open>np.argmax\<close> of an empty row raises ValueError.\<close>

definition py_argmax :: "real list \<Rightarrow> nat res" where
  "py_argmax row = (case row of [] \<Rightarrow> Inl ValueError | x # xs \<Rightarrow> Inr (argmax_acc xs 1 0 x))"

text \<open>NumPy's documented result: the first index at which the maximum occurs.\<close>

definition first_max :: "real list \<Rightarrow> nat" where
  "first_max row = hd (filter (\<lambda>i. row ! i = Max (set row)) [0..<length row])"

text \<open>Line 30: \<open>counters = {i: 0 for i in range(10)}\<close>.\<close>

definition init_counters :: "nat \<rightharpoonup> nat" where
  "init_counters = (\<lambda>i. if i < 10 then Some 0 else None)"

text \<open>Line 37: the file name of a sample.\<close>

definition digit_filename :: "nat \<Rightarrow> nat \<Rightarrow> string" where
  "digit_filename label n = str_nat label @ str_nat n @ ''.jpg''"

text \<open>
  Lines 34--43 for sample \<open>idx\<close>: \<open>Y[idx]\<close> (IndexError past the end of \<open>Y\<close>), its
  label, the counter (KeyError for a label outside 0--9), the name, the save into the
  label's folder. The counter is stored after the save; a failing save ends the script,
  so the order is not observable.
\<close>

definition digit_step ::
  "('x \<Rightarrow> string) \<Rightarrow> 'x list \<Rightarrow> real list list \<Rightarrow> path
     \<Rightarrow> node \<times> (nat \<rightharpoonup> nat) \<Rightarrow> nat \<Rightarrow> (node \<times> (nat \<rightharpoonup> nat)) res" where
  "digit_step save X Y out st idx =
     (case st of (t, counters) \<Rightarrow>
      if length Y \<le> idx then Inl IndexError
      else res_bind (py_argmax (Y ! idx)) (\<lambda>label.
        case counters label of
          None \<Rightarrow> Inl KeyError
        | Some c \<Rightarrow>
            res_bind (write_file (out @ [str_nat label]) (digit_filename label (c + 1)) (save (X ! idx)) t)
              (\<lambda>t'. Inr (t', counters(label \<mapsto> c + 1)))))"

text \<open>Lines 27--28: one folder per digit.\<close>

definition digit_folders :: "path \<Rightarrow> node \<Rightarrow> node res" where
  "digit_folders out t = for_each (\<lambda>t i. makedirs (out @ [str_nat i]) t) [0..<10] t"

text \<open>Lines 27--43: the folders, then the loop over \<open>range(len(X))\<close>.\<close>

definition digits_part ::
  "('x \<Rightarrow> string) \<Rightarrow> 'x list \<Rightarrow> real list list \<Rightarrow> path \<Rightarrow> node \<Rightarrow> (node \<times> (nat \<rightharpoonup> nat)) res" where
  "digits_part save X Y out t =
     res_bind (digit_folders out t) (\<lambda>t1.
       for_each (digit_step save X Y out) [0..<length X] (t1, init_counters))"

text \<open>
  A reference for the numbering, without counters: sample \<open>i\<close> with label \<open>l\<close> is the
  \<open>k\<close>-th sample of label \<open>l\<close> among samples \<open>0..i\<close>, and is saved as \<open>l/lk.jpg\<close>.
\<close>

definition digit_plan :: "('x \<Rightarrow> string) \<Rightarrow> 'x list \<Rightarrow> nat list \<Rightarrow> (nat \<times> string \<times> string) list" where
  "digit_plan save X ls =
     map (\<lambda>i. (ls ! i, digit_filename (ls ! i) (count_list (take (Suc i) ls) (ls ! i)), save (X ! i)))
       [0..<length X]"

definition plan_write :: "path \<Rightarrow> node \<Rightarrow> nat \<times> string \<times> string \<Rightarrow> node res" where
  "plan_write out t w = (case w of (l, n, c) \<Rightarrow> write_file (out @ [str_nat l]) n c t)"

definition count_map :: "nat list \<Rightarrow> nat \<rightharpoonup> nat" where
  "count_map ls = (\<lambda>l. if l < 10 then Some (count_list ls l) else None)"

section \<open>Part 2: copying the ASL alphabet\<close>

text \<open>Line 57: the extension filter of this script.\<close>

definition asl_exts :: "string list" where
  "asl_exts = [''.png'', ''.jpg'', ''.jpeg'']"

text \<open>
  Lines 60--69 for one file: nothing when the target exists; otherwise open, convert,
  resize and save, every exception caught and printed.
\<close>

definition asl_file :: "(string \<Rightarrow> string option) \<Rightarrow> path \<Rightarrow> path \<Rightarrow> node \<Rightarrow> string \<Rightarrow> node res" where
  "asl_file conv src_folder dst_folder t file_name =
     (if exists t (dst_folder @ [file_name]) then Inr t
      else case read_file t (src_folder @ [file_name]) of
        Inl _ \<Rightarrow> Inr t
      | Inr c \<Rightarrow> (case conv c of
          None \<Rightarrow> Inr t
        | Some c' \<Rightarrow> (case write_file dst_folder file_name c' t of Inl _ \<Rightarrow> Inr t | Inr t' \<Rightarrow> Inr t')))"

text \<open>Lines 53--69 for one subfolder.\<close>

definition asl_folder :: "(string \<Rightarrow> string option) \<Rightarrow> path \<Rightarrow> path \<Rightarrow> node \<Rightarrow> string \<Rightarrow> node res" where
  "asl_folder conv asl_source output_base t folder_name =
     (let src_folder = asl_source @ [folder_name]; dst_folder = output_base @ [folder_name] in
      res_bind (makedirs dst_folder t) (\<lambda>t1.
        res_bind (listdir t1 src_folder) (\<lambda>names.
          for_each (asl_file conv src_folder dst_folder)
            (filter (\<lambda>f. ends_with_any (lower f) asl_exts) names) t1)))"

text \<open>Lines 49--69: the subfolders are listed once, before the loop.\<close>

definition asl_copy :: "(string \<Rightarrow> string option) \<Rightarrow> path \<Rightarrow> path \<Rightarrow> node \<Rightarrow> node res" where
  "asl_copy conv asl_source output_base t =
     res_bind (listdir t asl_source) (\<lambda>names.
       for_each (asl_folder conv asl_source output_base)
         (filter (\<lambda>f. isdir t (asl_source @ [f])) names) t)"

section \<open>The two scripts\<close>

text \<open>The first script, from the project folder \<open>base\<close>: part 1, then part 2.\<close>

definition extraction_36 ::
  "('x \<Rightarrow> string) \<Rightarrow> (string \<Rightarrow> string option) \<Rightarrow> 'x list \<Rightarrow> real list list \<Rightarrow> path \<Rightarrow> node \<Rightarrow> node res" where
  "extraction_36 save conv X Y base t =
     res_bind (digits_part save X Y (base @ [''data'', ''yolo_images'']) t) (\<lambda>r.
       asl_copy conv (base @ [''data'', ''raw_data'', ''asl_alphabet_dataset'', ''asl_alphabet_train'', ''asl_alphabet_train''])
         (base @ [''data'', ''yolo_images'']) (fst r))"

definition extraction_26 :: "(string \<Rightarrow> string option) \<Rightarrow> path \<Rightarrow> node \<Rightarrow> node res" where
  "extraction_26 conv base t =
     asl_copy conv (base @ [''data'', ''asl_alphabet'']) (base @ [''data'', ''yolo_images'']) t"

section \<open>Samples\<close>

text \<open>A source tree with one class folder and a prior output, and a conversion that
  fails on one file; three digit samples with labels 3, 3 and 1.\<close>

definition sample_conv :: "string \<Rightarrow> string option" where
  "sample_conv c = (if c = ''bad'' then None else Some (''rgb:'' @ c))"

definition sample_asl_tree :: node where
  "sample_asl_tree = Dir [
     (''raw'', Dir [(''A'', Dir [(''a.jpg'', File ''p''), (''b.PNG'', File ''bad''), (''notes.txt'', File ''x'')]),
                    (''readme'', File ''r'')]),
     (''out'', Dir [(''A'', Dir [(''old.jpg'', File ''o'')])])]"

definition sample_asl_result :: node where
  "sample_asl_result = Dir [
     (''raw'', Dir [(''A'', Dir [(''a.jpg'', File ''p''), (''b.PNG'', File ''bad''), (''notes.txt'', File ''x'')]),
                    (''readme'', File ''r'')]),
     (''out'', Dir [(''A'', Dir [(''old.jpg'', File ''o''), (''a.jpg'', File ''rgb:p'')])])]"

definition sample_X :: "nat list" where "sample_X = [5, 6, 7]"

definition sample_Y :: "real list list" where
  "sample_Y = [[0, 0, 0, 1, 0, 0, 0, 0, 0, 0], [0, 0, 0, 1, 0, 0, 0, 0, 0, 0], [0, 1, 0, 0, 0, 0, 0, 0, 0, 0]]"

definition sample_digit_tree :: node where "sample_digit_tree = Dir [(''out'', Dir [])]"

definition sample_digit_result :: node where
  "sample_digit_result = Dir [(''out'', Dir [(''0'', Dir []), (''1'', Dir [(''11.jpg'', File ''7'')]),
     (''2'', Dir []), (''3'', Dir [(''31.jpg'', File ''5''), (''32.jpg'', File ''6'')]), (''4'', Dir []),
     (''5'', Dir []), (''6'', Dir []), (''7'', Dir []), (''8'', Dir []), (''9'', Dir [])])]"

section \<open>The argmax scan\<close>

lemma first_max_nonempty:
  "xs \<noteq> [] \<Longrightarrow> filter (\<lambda>i. xs ! i = Max (set xs)) [0..<length xs] \<noteq> []"
proof -
  assume "xs \<noteq> []"
  then have "Max (set xs) \<in> set xs" by simp
  then obtain i where "i < length xs" and "xs ! i = Max (set xs)" by (auto simp: in_set_conv_nth)
  then show ?thesis by (auto simp: filter_empty_conv)
qed

lemma first_max_Cons:
  "first_max (x # xs) = (if xs = [] \<or> Max (set xs) \<le> x then 0 else Suc (first_max xs))"
proof -
  have upt: "[0..<Suc (length xs)] = 0 # map Suc [0..<length xs]"
    by (subst map_Suc_upt) (simp add: upt_conv_Cons del: upt_Suc)
  show ?thesis
  proof (cases "xs = [] \<or> Max (set xs) \<le> x")
    case True
    have "Max (set (x # xs)) = x"
    proof (cases "xs = []")
      case False
      then have "Max (set (x # xs)) = max x (Max (set xs))" by simp
      with True False show ?thesis by (simp add: max_def del: Max_le_iff)
    qed simp
    with True show ?thesis by (simp add: first_max_def upt del: upt_Suc)
  next
    case False
    then have ne: "xs \<noteq> []" and lt: "x < Max (set xs)" by auto
    then have M: "Max (set (x # xs)) = Max (set xs)" by (simp add: max_def)
    have "filter (\<lambda>i. (x # xs) ! i = Max (set xs)) [0..<length (x # xs)]
        = map Suc (filter (\<lambda>i. xs ! i = Max (set xs)) [0..<length xs])"
      using lt by (simp add: upt filter_map comp_def del: upt_Suc)
    with M first_max_nonempty [OF ne] False show ?thesis
      by (simp add: first_max_def hd_map)
  qed
qed

lemma Max_Cons: "Max (set (x # xs)) = (if xs = [] then x else max x (Max (set xs)))"
  by simp

lemma argmax_acc_eq:
  "argmax_acc xs i b v = (if xs \<noteq> [] \<and> v < Max (set xs) then i + first_max xs else b)"
proof (induction xs arbitrary: i b v)
  case (Cons x xs)
  show ?case
    unfolding argmax_acc.simps Cons.IH first_max_Cons Max_Cons
    by (simp add: max_def not_le del: Max_less_iff Max_le_iff Max_ge_iff Max_gr_iff)
qed simp

text \<open>
  Equivalence of the scan with its reference: on a non-empty row, the loop of
  \<open>np.argmax\<close> as the script relies on it returns the first index at which the row's
  maximum occurs; on an empty row it raises ValueError.
\<close>

lemma py_argmax_first_max:
  "py_argmax row = (if row = [] then Inl ValueError else Inr (first_max row))"
  by (cases row) (simp_all add: py_argmax_def argmax_acc_eq first_max_Cons not_le del: Max_less_iff Max_le_iff Max_ge_iff Max_gr_iff)

section \<open>The counter loop\<close>

lemma count_map_snoc:
  "l < 10 \<Longrightarrow> (count_map L)(l \<mapsto> Suc (count_list L l)) = count_map (L @ [l])"
  by (auto simp: count_map_def fun_eq_iff)

text \<open>The plan's entry for sample \<open>i\<close>, read from the rows up to \<open>i\<close>.\<close>

lemma digit_plan_nth:
  assumes "i < length X" and "i < length Y"
  shows "digit_plan save X (map first_max (take (length X) Y)) ! i
       = (first_max (Y ! i),
          digit_filename (first_max (Y ! i)) (count_list (map first_max (take (Suc i) Y)) (first_max (Y ! i))),
          save (X ! i))"
proof -
  have "take (Suc i) (map first_max (take (length X) Y)) = map first_max (take (Suc i) Y)"
    using assms by (simp add: take_map min_def)
  with assms show ?thesis by (simp add: digit_plan_def)
qed

lemma digit_step_eq:
  assumes "m < length Y" and "Y ! m \<noteq> []" and "first_max (Y ! m) < 10"
  shows "digit_step save X Y out (t, count_map (map first_max (take m Y))) m
       = res_bind (write_file (out @ [str_nat (first_max (Y ! m))])
             (digit_filename (first_max (Y ! m)) (count_list (map first_max (take (Suc m) Y)) (first_max (Y ! m))))
             (save (X ! m)) t)
           (\<lambda>t'. Inr (t', count_map (map first_max (take (Suc m) Y))))"
proof -
  have tk: "take (Suc m) Y = take m Y @ [Y ! m]" using assms(1) by (simp add: take_Suc_conv_app_nth)
  show ?thesis
    using assms count_map_snoc [OF assms(3), of "map first_max (take m Y)"]
    by (simp add: digit_step_def py_argmax_first_max tk count_map_def)
qed

lemma digits_loop:
  assumes "m \<le> length X" and "m \<le> length Y" and "\<forall>r \<in> set (take m Y). r \<noteq> [] \<and> first_max r < 10"
  shows "for_each (digit_step save X Y out) [0..<m] (t1, init_counters)
       = res_bind (for_each (plan_write out) (take m (digit_plan save X (map first_max (take (length X) Y)))) t1)
           (\<lambda>t2. Inr (t2, count_map (map first_max (take m Y))))"
  using assms
proof (induction m)
  case 0
  show ?case by (simp add: init_counters_def count_map_def fun_eq_iff)
next
  case (Suc m)
  let ?P = "digit_plan save X (map first_max (take (length X) Y))"
  have lt: "m < length X" "m < length Y" using Suc.prems by simp_all
  have tk: "take (Suc m) Y = take m Y @ [Y ! m]" using lt(2) by (simp add: take_Suc_conv_app_nth)
  have row: "Y ! m \<noteq> []" "first_max (Y ! m) < 10" using Suc.prems(3) by (simp_all add: tk)
  have ih: "for_each (digit_step save X Y out) [0..<m] (t1, init_counters)
       = res_bind (for_each (plan_write out) (take m ?P) t1) (\<lambda>t2. Inr (t2, count_map (map first_max (take m Y))))"
    using Suc.prems by (intro Suc.IH) (simp_all add: tk)
  have tkP: "take (Suc m) ?P = take m ?P @ [?P ! m]"
    using lt(1) by (simp add: take_Suc_conv_app_nth digit_plan_def)
  have pw: "plan_write out t2 (?P ! m)
      = write_file (out @ [str_nat (first_max (Y ! m))])
          (digit_filename (first_max (Y ! m)) (count_list (map first_max (take (Suc m) Y)) (first_max (Y ! m))))
          (save (X ! m)) t2" for t2
    using digit_plan_nth [OF lt, of save] by (simp add: plan_write_def)
  show ?case
  proof (cases "for_each (plan_write out) (take m ?P) t1")
    case (Inr t2)
    have "for_each (digit_step save X Y out) [0..<Suc m] (t1, init_counters)
        = digit_step save X Y out (t2, count_map (map first_max (take m Y))) m"
      by (simp add: for_each_append ih Inr for_each_Nil_fun res_bind_Inr_right)
    also have "\<dots> = res_bind (plan_write out t2 (?P ! m)) (\<lambda>t'. Inr (t', count_map (map first_max (take (Suc m) Y))))"
      by (simp only: digit_step_eq [OF lt(2) row] pw)
    also have "\<dots> = res_bind (for_each (plan_write out) (take (Suc m) ?P) t1)
                       (\<lambda>t2. Inr (t2, count_map (map first_max (take (Suc m) Y))))"
      by (simp add: tkP for_each_append Inr for_each_Nil_fun res_bind_Inr_right)
    finally show ?thesis .
  qed (simp add: ih for_each_append tkP)
qed

lemma digit_filename_inj: "digit_filename l a = digit_filename l' b \<Longrightarrow> l = l' \<Longrightarrow> a = b"
  by (simp add: digit_filename_def)

lemma count_list_take_mono: "a \<le> b \<Longrightarrow> count_list (take a ls) x \<le> count_list (take b ls) x"
  by (metis count_list_append le_add1 le_add_diff_inverse take_add)

lemma count_list_take_less:
  assumes "i < j" and "j < length ls"
  shows "count_list (take (Suc i) ls) (ls ! j) < count_list (take (Suc j) ls) (ls ! j)"
proof -
  have "count_list (take (Suc i) ls) (ls ! j) \<le> count_list (take j ls) (ls ! j)"
    using assms(1) by (intro count_list_take_mono) simp
  also have "\<dots> < count_list (take (Suc j) ls) (ls ! j)"
    using assms(2) by (simp add: take_Suc_conv_app_nth)
  finally show ?thesis .
qed

text \<open>No two samples are given the same folder and name.\<close>

lemma digit_plan_distinct:
  assumes "length X \<le> length ls"
  shows "distinct (map (\<lambda>(l, n, c). (l, n)) (digit_plan save X ls))"
proof -
  have "(ls ! i, digit_filename (ls ! i) (count_list (take (Suc i) ls) (ls ! i)))
      \<noteq> (ls ! j, digit_filename (ls ! j) (count_list (take (Suc j) ls) (ls ! j)))"
    if "i < j" "j < length X" for i j
  proof
    assume e: "(ls ! i, digit_filename (ls ! i) (count_list (take (Suc i) ls) (ls ! i)))
      = (ls ! j, digit_filename (ls ! j) (count_list (take (Suc j) ls) (ls ! j)))"
    then have "count_list (take (Suc i) ls) (ls ! j) = count_list (take (Suc j) ls) (ls ! j)"
      using digit_filename_inj by auto
    with count_list_take_less [OF that(1), of ls] that(2) assms show False by simp
  qed
  then have "inj_on (\<lambda>i. (ls ! i, digit_filename (ls ! i) (count_list (take (Suc i) ls) (ls ! i)))) {0..<length X}"
    unfolding inj_on_def by (metis atLeastLessThan_iff nat_neq_iff)
  then show ?thesis
    by (simp add: digit_plan_def distinct_map comp_def)
qed

lemma plan_write_other:
  assumes "for_each (plan_write out) ws t = Inr t'" and "(l, n) \<notin> set (map (\<lambda>(l, n, c). (l, n)) ws)"
  shows "read_file t' (out @ [str_nat l, n]) = read_file t (out @ [str_nat l, n])"
  using assms
proof (induction ws arbitrary: t)
  case (Cons w ws)
  obtain l0 n0 c0 where w: "w = (l0, n0, c0)" by (cases w)
  from Cons.prems(1) obtain t1 where t1: "plan_write out t w = Inr t1" and rest: "for_each (plan_write out) ws t1 = Inr t'"
    by (auto simp: res_bind_eq_Inr)
  have "read_file t1 (out @ [str_nat l, n]) = read_file t (out @ [str_nat l, n])"
    using write_file_read [OF t1 [unfolded w plan_write_def, simplified]] Cons.prems(2) w by auto
  with Cons.IH [OF rest] Cons.prems(2) show ?case by simp
qed simp

lemma plan_write_read:
  assumes "for_each (plan_write out) ws t = Inr t'" and "distinct (map (\<lambda>(l, n, c). (l, n)) ws)"
    and "(l, n, c) \<in> set ws"
  shows "read_file t' (out @ [str_nat l, n]) = Inr c"
  using assms
proof (induction ws arbitrary: t)
  case (Cons w ws)
  obtain l0 n0 c0 where w: "w = (l0, n0, c0)" by (cases w)
  from Cons.prems(1) obtain t1 where t1: "plan_write out t w = Inr t1" and rest: "for_each (plan_write out) ws t1 = Inr t'"
    by (auto simp: res_bind_eq_Inr)
  show ?case
  proof (cases "w = (l, n, c)")
    case True
    with Cons.prems(2) have "(l, n) \<notin> set (map (\<lambda>(l, n, c). (l, n)) ws)" by auto
    moreover have "read_file t1 (out @ [str_nat l, n]) = Inr c"
      using write_file_read [OF t1 [unfolded True plan_write_def, simplified]] by simp
    ultimately show ?thesis using plan_write_other [OF rest] by simp
  next
    case False
    with Cons.prems(3) have "(l, n, c) \<in> set ws" by simp
    with Cons.IH [OF rest] Cons.prems(2) show ?thesis by simp
  qed
qed simp

lemma sample_labels: "map first_max (take 3 sample_Y) = [3, 3, 1]"
  by code_simp

lemma sample_rows: "\<forall>r \<in> set (take (length sample_X) sample_Y). r \<noteq> [] \<and> first_max r < 10"
  by code_simp

lemma sample_digits_run:
  "map_sum id fst (digits_part str_nat sample_X sample_Y [''out''] sample_digit_tree) = Inr sample_digit_result"
  by code_simp

lemma sample_digits: "\<exists>cs. digits_part str_nat sample_X sample_Y [''out''] sample_digit_tree = Inr (sample_digit_result, cs)"
  using sample_digits_run by (cases "digits_part str_nat sample_X sample_Y [''out''] sample_digit_tree") auto

lemma digits_loop_Inr:
  assumes "for_each (digit_step save X Y out) [0..<m] (t1, init_counters) = Inr st" and "m \<le> length X"
  shows "m \<le> length Y \<and> (\<forall>r \<in> set (take m Y). r \<noteq> [] \<and> first_max r < 10)"
  using assms
proof (induction m arbitrary: st)
  case (Suc m)
  from Suc.prems(1) obtain st1 where l: "for_each (digit_step save X Y out) [0..<m] (t1, init_counters) = Inr st1"
    and s: "digit_step save X Y out st1 m = Inr st"
    by (auto simp: for_each_append res_bind_eq_Inr)
  have ih: "m \<le> length Y" "\<forall>r \<in> set (take m Y). r \<noteq> [] \<and> first_max r < 10"
    using Suc.IH [OF l] Suc.prems(2) by simp_all
  obtain t2 where st1: "st1 = (t2, count_map (map first_max (take m Y)))"
    using l digits_loop [of m X Y save out t1] ih Suc.prems(2) by (auto simp: res_bind_eq_Inr)
  have m: "m < length Y" and ne: "Y ! m \<noteq> []" and lab: "first_max (Y ! m) < 10"
    using s by (auto simp: st1 digit_step_def py_argmax_first_max count_map_def res_bind_eq_Inr
      split: if_splits option.splits)
  have "take (Suc m) Y = take m Y @ [Y ! m]" using m by (simp add: take_Suc_conv_app_nth)
  with ih m ne lab show ?case by simp
qed simp

text \<open>
  C21. Equivalence of the counter loop with the reference numbering: when every sample
  has a row of \<open>Y\<close> with a label 0--9, part 1 creates the ten folders and then performs
  exactly the writes of \<open>digit_plan\<close>, in which sample \<open>i\<close> of label \<open>l\<close> is saved as
  \<open>l/lk.jpg\<close> with \<open>k\<close> the number of samples of label \<open>l\<close> among samples \<open>0..i\<close>; the
  counters end as those label counts.
\<close>

theorem digits_part_plan:
  assumes "length X \<le> length Y" and "\<forall>r \<in> set (take (length X) Y). r \<noteq> [] \<and> first_max r < 10"
  shows "digits_part save X Y out t
       = res_bind (digit_folders out t) (\<lambda>t1.
           res_bind (for_each (plan_write out) (digit_plan save X (map first_max (take (length X) Y))) t1)
             (\<lambda>t2. Inr (t2, count_map (map first_max (take (length X) Y)))))"
  using digits_loop [OF le_refl assms(1,2)] by (simp add: digits_part_def digit_plan_def)

theorem digits_part_plan_witness:
  "digits_part str_nat sample_X sample_Y [''out''] sample_digit_tree
     = res_bind (digit_folders [''out''] sample_digit_tree) (\<lambda>t1.
         res_bind (for_each (plan_write [''out'']) (digit_plan str_nat sample_X [3, 3, 1]) t1)
           (\<lambda>t2. Inr (t2, count_map [3, 3, 1])))"
  using digits_part_plan [of sample_X sample_Y str_nat "[''out'']" sample_digit_tree] sample_rows sample_labels
  by (simp add: sample_X_def sample_Y_def)

text \<open>
  C22. Error behaviour of part 1: a run that returns had, for every sample of \<open>X\<close>, a
  row of \<open>Y\<close> (otherwise IndexError), non-empty (otherwise ValueError) and with its
  largest entry at an index below 10 (otherwise KeyError on the counters).
\<close>

theorem digits_part_needs_labels:
  assumes "digits_part save X Y out t = Inr r"
  shows "length X \<le> length Y \<and> (\<forall>row \<in> set (take (length X) Y). row \<noteq> [] \<and> first_max row < 10)"
proof -
  from assms obtain t1 where "for_each (digit_step save X Y out) [0..<length X] (t1, init_counters) = Inr r"
    by (auto simp: digits_part_def res_bind_eq_Inr)
  from digits_loop_Inr [OF this le_refl] show ?thesis .
qed

theorem digits_part_needs_labels_witness:
  "length sample_X \<le> length sample_Y"
  using sample_digits digits_part_needs_labels by blast

text \<open>
  C23. No sample is lost: after a successful part 1, every sample \<open>i\<close> is found under
  its label's folder, named by its label and its rank among the samples of that label,
  holding its own image bytes; no later sample overwrites it.
\<close>

theorem digits_part_saves_all:
  assumes run: "digits_part save X Y out t = Inr (t', cs)" and i: "i < length X"
  shows "read_file t' (out @ [str_nat (first_max (Y ! i)),
           digit_filename (first_max (Y ! i)) (count_list (map first_max (take (Suc i) Y)) (first_max (Y ! i)))])
         = Inr (save (X ! i))"
proof -
  from run obtain t1 where t1: "digit_folders out t = Inr t1"
    and l: "for_each (digit_step save X Y out) [0..<length X] (t1, init_counters) = Inr (t', cs)"
    by (auto simp: digits_part_def res_bind_eq_Inr)
  from digits_loop_Inr [OF l le_refl] have ok: "length X \<le> length Y"
    "\<forall>r \<in> set (take (length X) Y). r \<noteq> [] \<and> first_max r < 10" by simp_all
  let ?P = "digit_plan save X (map first_max (take (length X) Y))"
  from l digits_loop [OF le_refl ok] have w: "for_each (plan_write out) ?P t1 = Inr t'"
    by (auto simp: digit_plan_def res_bind_eq_Inr)
  have "?P ! i \<in> set ?P" using i by (simp add: digit_plan_def)
  moreover have "?P ! i = (first_max (Y ! i),
           digit_filename (first_max (Y ! i)) (count_list (map first_max (take (Suc i) Y)) (first_max (Y ! i))),
           save (X ! i))"
    using digit_plan_nth [OF i] i ok(1) by simp
  moreover have "distinct (map (\<lambda>(l, n, c). (l, n)) ?P)"
    using ok(1) by (intro digit_plan_distinct) simp
  ultimately show ?thesis using plan_write_read [OF w] by simp
qed

theorem digits_part_saves_all_witness:
  "read_file sample_digit_result [''out'', ''3'', ''32.jpg''] = Inr ''6''"
proof -
  obtain cs where r: "digits_part str_nat sample_X sample_Y [''out''] sample_digit_tree = Inr (sample_digit_result, cs)"
    using sample_digits by blast
  show ?thesis
    using digits_part_saves_all [OF r, of 1] sample_labels
    by (simp add: sample_X_def sample_Y_def digit_filename_def) code_simp
qed

section \<open>The copy loop\<close>

text \<open>Paths below two folders neither of which contains the other are distinct.\<close>

lemma write_file_sibling:
  assumes "write_file (Out @ [g]) m c s = Inr s'" and "(g, m) \<noteq> (f, n)"
  shows "lookup s' (Out @ [f, n]) = lookup s (Out @ [f, n])"
  using write_file_lookup_cases [OF assms(1), of "Out @ [f, n]"] assms(2)
  by (auto dest: prefix_length_le prefix_length_less)

lemma makedirs_below:
  "makedirs (Out @ [g]) s = Inr s' \<Longrightarrow> lookup s' (Out @ [f, n]) = lookup s (Out @ [f, n])"
  by (erule makedirs_lookup) (auto dest: prefix_length_le)

text \<open>The body never raises: every failure on one file is caught.\<close>

lemma asl_file_Inr: "\<exists>t'. asl_file conv src dst t m = Inr t'"
  by (auto simp: asl_file_def split: sum.splits option.splits)

text \<open>What one file's step does: nothing, or a fresh copy of the converted source.\<close>

lemma asl_file_cases:
  assumes "asl_file conv src dst s m = Inr s'"
  obtains (skip) "s' = s"
  | (copy) c c' where "\<not> exists s (dst @ [m])" and "read_file s (src @ [m]) = Inr c"
      and "conv c = Some c'" and "write_file dst m c' s = Inr s'"
proof (cases "exists s (dst @ [m])")
  case True
  with assms show ?thesis by (intro skip) (simp add: asl_file_def)
next
  case nex: False
  show ?thesis
  proof (cases "read_file s (src @ [m])")
    case (Inl e)
    with nex assms show ?thesis by (intro skip) (simp add: asl_file_def)
  next
    case rd: (Inr c)
    show ?thesis
    proof (cases "conv c")
      case None
      with nex rd assms show ?thesis by (intro skip) (simp add: asl_file_def)
    next
      case cv: (Some c')
      show ?thesis
      proof (cases "write_file dst m c' s")
        case (Inl e)
        with nex rd cv assms show ?thesis by (intro skip) (simp add: asl_file_def)
      next
        case (Inr s2)
        with nex rd cv assms have "write_file dst m c' s = Inr s'" by (simp add: asl_file_def)
        with nex rd cv show ?thesis by (rule copy)
      qed
    qed
  qed
qed

lemma asl_file_pres:
  assumes step: "\<And>s n c s'. P s \<Longrightarrow> write_file dst n c s = Inr s' \<Longrightarrow> \<not> exists s (dst @ [n]) \<Longrightarrow> P s'"
    and "P t" and "asl_file conv src dst t m = Inr t'"
  shows "P t'"
  using assms(3)
proof (cases rule: asl_file_cases)
  case skip
  with assms(2) show ?thesis by simp
next
  case (copy c c')
  show ?thesis by (rule step [OF assms(2) copy(4,1)])
qed

lemma asl_folder_pres:
  assumes mk: "\<And>s s'. P s \<Longrightarrow> makedirs (Out @ [g]) s = Inr s' \<Longrightarrow> P s'"
    and fl: "\<And>s m s'. P s \<Longrightarrow> asl_file conv (S @ [g]) (Out @ [g]) s m = Inr s' \<Longrightarrow> P s'"
    and "P t" and "asl_folder conv S Out t g = Inr t'"
  shows "P t'"
proof -
  from assms(4) obtain t1 names where m: "makedirs (Out @ [g]) t = Inr t1"
    and l: "for_each (asl_file conv (S @ [g]) (Out @ [g]))
              (filter (\<lambda>f. ends_with_any (lower f) asl_exts) names) t1 = Inr t'"
    by (auto simp: asl_folder_def Let_def res_bind_eq_Inr)
  have "P t1" using mk [OF assms(3) m] .
  then show ?thesis using for_each_invariant [where P = P, OF _ _ l] fl by blast
qed

lemma asl_copy_pres:
  assumes mk: "\<And>g s s'. P s \<Longrightarrow> makedirs (Out @ [g]) s = Inr s' \<Longrightarrow> P s'"
    and fl: "\<And>g s m s'. P s \<Longrightarrow> asl_file conv (S @ [g]) (Out @ [g]) s m = Inr s' \<Longrightarrow> P s'"
    and "P t" and "asl_copy conv S Out t = Inr t'"
  shows "P t'"
proof -
  from assms(4) obtain names where
    l: "for_each (asl_folder conv S Out) (filter (\<lambda>f. isdir t (S @ [f])) names) t = Inr t'"
    by (auto simp: asl_copy_def res_bind_eq_Inr)
  have "\<And>s g s'. P s \<Longrightarrow> asl_folder conv S Out s g = Inr s' \<Longrightarrow> P s'"
    by (rule asl_folder_pres [where P = P, OF mk fl]) auto
  then show ?thesis using for_each_invariant [where P = P, OF _ assms(3) l] by blast
qed

lemma asl_file_keeps:
  assumes "lookup s p = Some (File c)" and "asl_file conv src dst s m = Inr s'"
  shows "lookup s' p = Some (File c)"
  using assms(2)
proof (cases rule: asl_file_cases)
  case (copy c c')
  show ?thesis by (rule write_file_fresh_files [OF copy(4,1) assms(1)])
qed (simp add: assms(1))

lemma asl_folder_keeps:
  assumes "lookup s p = Some (File c)" and "asl_folder conv S Out s g = Inr s'"
  shows "lookup s' p = Some (File c)"
proof (rule asl_folder_pres [where P = "\<lambda>s0. lookup s0 p = Some (File c)", OF _ _ assms])
  show "lookup s1 p = Some (File c)" if "lookup s0 p = Some (File c)" "makedirs (Out @ [g]) s0 = Inr s1" for s0 s1
    using that by (simp add: makedirs_files)
  show "lookup s1 p = Some (File c)" if "lookup s0 p = Some (File c)" "asl_file conv (S @ [g]) (Out @ [g]) s0 m = Inr s1" for s0 m s1
    using that by (rule asl_file_keeps)
qed

lemma asl_file_parallel:
  assumes "asl_file conv src dst s m = Inr s'" and "\<not> prefix p dst" and "\<not> prefix dst p"
  shows "lookup s' p = lookup s p"
  using assms(1)
proof (cases rule: asl_file_cases)
  case (copy c c')
  show ?thesis by (rule write_file_parallel [OF copy(4) assms(2,3)])
qed simp

text \<open>The source tree is only read when it and the output tree are apart.\<close>

lemma asl_folder_source:
  assumes "\<not> prefix S Out" and "\<not> prefix Out S" and "asl_folder conv S Out s g = Inr s'"
  shows "lookup s' (S @ q) = lookup s (S @ q)"
proof -
  have "\<And>r. \<not> prefix (S @ q) (Out @ r) \<and> \<not> prefix (Out @ r) (S @ q)"
    using parallel_ext [OF assms(1,2)] by blast
  then have np: "\<not> prefix (S @ q) (Out @ [g])" and npp: "\<not> prefix (Out @ [g]) (S @ q)" by blast+
  have mk: "\<And>s0 s1. makedirs (Out @ [g]) s0 = Inr s1 \<Longrightarrow> lookup s1 (S @ q) = lookup s0 (S @ q)"
    using np by (simp add: makedirs_lookup)
  have fl: "\<And>s0 m s1. asl_file conv (S @ [g]) (Out @ [g]) s0 m = Inr s1 \<Longrightarrow> lookup s1 (S @ q) = lookup s0 (S @ q)"
    using np npp by (simp add: asl_file_parallel)
  show ?thesis
    by (rule asl_folder_pres [where P = "\<lambda>s0. lookup s0 (S @ q) = lookup s (S @ q)", OF _ _ refl assms(3)])
       (metis mk, metis fl)
qed

text \<open>The target of one source file holds its conversion once it exists.\<close>

lemma asl_file_target:
  assumes run: "asl_file conv (S @ [g]) (Out @ [g]) s m = Inr s'"
    and src: "lookup s (S @ [f, n]) = Some (File c)" and cv: "conv c = Some c'"
    and tgt: "exists s (Out @ [f, n]) \<longrightarrow> lookup s (Out @ [f, n]) = Some (File c')"
  shows "exists s' (Out @ [f, n]) \<longrightarrow> lookup s' (Out @ [f, n]) = Some (File c')"
  using run
proof (cases rule: asl_file_cases)
  case skip
  with tgt show ?thesis by simp
next
  case (copy d d')
  show ?thesis
  proof (cases "(g, m) = (f, n)")
    case True
    with copy(2) src have "d = c" by (simp add: read_file_def)
    with copy(3) cv True have "d' = c'" by simp
    with write_file_read [OF copy(4), of "Out @ [f, n]"] True show ?thesis
      by (auto simp: read_file_def split: option.splits node.splits)
  next
    case False
    with write_file_sibling [OF copy(4)] tgt show ?thesis by (simp add: exists_def)
  qed
qed

lemma asl_file_dir_kept:
  "asl_file conv src dst s m = Inr s' \<Longrightarrow> isdir s p \<Longrightarrow> isdir s' p"
  by (erule asl_file_pres [rotated 2]) (simp add: write_file_isdir)

text \<open>The invariant of the copy for one source file: the source is unchanged and its
  target, once it exists, holds the conversion.\<close>

lemma asl_folder_inv:
  assumes run: "asl_folder conv S Out s g = Inr s'" and par: "\<not> prefix S Out" "\<not> prefix Out S"
    and src: "lookup s (S @ [f, n]) = Some (File c)" and cv: "conv c = Some c'"
    and tgt: "exists s (Out @ [f, n]) \<longrightarrow> lookup s (Out @ [f, n]) = Some (File c')"
  shows "lookup s' (S @ [f, n]) = Some (File c)
       \<and> (exists s' (Out @ [f, n]) \<longrightarrow> lookup s' (Out @ [f, n]) = Some (File c'))"
proof (rule asl_folder_pres [where P = "\<lambda>s0. lookup s0 (S @ [f, n]) = Some (File c)
       \<and> (exists s0 (Out @ [f, n]) \<longrightarrow> lookup s0 (Out @ [f, n]) = Some (File c'))", OF _ _ _ run])
  show "lookup s (S @ [f, n]) = Some (File c) \<and> (exists s (Out @ [f, n]) \<longrightarrow> lookup s (Out @ [f, n]) = Some (File c'))"
    using src tgt by simp
  have np: "\<not> prefix (S @ [f, n]) (Out @ [g])" "\<not> prefix (Out @ [g]) (S @ [f, n])"
    using parallel_ext [OF par] by blast+
  fix s0 s1
  assume i: "lookup s0 (S @ [f, n]) = Some (File c)
       \<and> (exists s0 (Out @ [f, n]) \<longrightarrow> lookup s0 (Out @ [f, n]) = Some (File c'))"
  {
    assume "makedirs (Out @ [g]) s0 = Inr s1"
    with i np show "lookup s1 (S @ [f, n]) = Some (File c)
       \<and> (exists s1 (Out @ [f, n]) \<longrightarrow> lookup s1 (Out @ [f, n]) = Some (File c'))"
      by (simp add: makedirs_lookup makedirs_below exists_def)
  next
    fix m
    assume a: "asl_file conv (S @ [g]) (Out @ [g]) s0 m = Inr s1"
    from i have "exists s1 (Out @ [f, n]) \<longrightarrow> lookup s1 (Out @ [f, n]) = Some (File c')"
      by (intro asl_file_target [OF a _ cv]) simp_all
    moreover have "lookup s1 (S @ [f, n]) = lookup s0 (S @ [f, n])"
      using asl_file_parallel [OF a np] .
    ultimately show "lookup s1 (S @ [f, n]) = Some (File c)
       \<and> (exists s1 (Out @ [f, n]) \<longrightarrow> lookup s1 (Out @ [f, n]) = Some (File c'))"
      using i by simp
  }
qed

text \<open>The step of the folder \<open>f\<close> creates the target of every image it lists.\<close>

lemma asl_folder_copies:
  assumes run: "asl_folder conv S Out s f = Inr s'" and par: "\<not> prefix S Out" "\<not> prefix Out S"
    and src: "lookup s (S @ [f, n]) = Some (File c)" and cv: "conv c = Some c'"
    and img: "ends_with_any (lower n) asl_exts"
    and tgt: "exists s (Out @ [f, n]) \<longrightarrow> lookup s (Out @ [f, n]) = Some (File c')"
  shows "lookup s' (Out @ [f, n]) = Some (File c')"
proof -
  from run obtain s1 names where mk: "makedirs (Out @ [f]) s = Inr s1"
    and ld: "listdir s1 (S @ [f]) = Inr names"
    and loop: "for_each (asl_file conv (S @ [f]) (Out @ [f]))
                 (filter (\<lambda>x. ends_with_any (lower x) asl_exts) names) s1 = Inr s'"
    by (auto simp: asl_folder_def Let_def res_bind_eq_Inr)
  have np: "\<not> prefix (S @ [f, n]) (Out @ [f])" "\<not> prefix (Out @ [f]) (S @ [f, n])"
    using parallel_ext [OF par] by blast+
  have src1: "lookup s1 (S @ [f, n]) = Some (File c)"
    using makedirs_lookup [OF mk np(1)] src by simp
  have tgt1: "exists s1 (Out @ [f, n]) \<longrightarrow> lookup s1 (Out @ [f, n]) = Some (File c')"
    using makedirs_below [OF mk] tgt by (simp add: exists_def)
  have "n \<in> set (filter (\<lambda>x. ends_with_any (lower x) asl_exts) names)"
    using listdir_child [of s1 "S @ [f]" n, OF _ ld] src1 img by simp
  then show ?thesis
  proof (rule for_each_establish [where I = "\<lambda>s0. lookup s0 (S @ [f, n]) = Some (File c)
       \<and> (exists s0 (Out @ [f, n]) \<longrightarrow> lookup s0 (Out @ [f, n]) = Some (File c'))
       \<and> isdir s0 (Out @ [f])", OF _ _ _ _ _ loop])
    show "lookup s1 (S @ [f, n]) = Some (File c)
       \<and> (exists s1 (Out @ [f, n]) \<longrightarrow> lookup s1 (Out @ [f, n]) = Some (File c'))
       \<and> isdir s1 (Out @ [f])"
      using src1 tgt1 makedirs_isdir [OF mk] by simp
  next
    fix s0 y s2
    assume i: "lookup s0 (S @ [f, n]) = Some (File c)
       \<and> (exists s0 (Out @ [f, n]) \<longrightarrow> lookup s0 (Out @ [f, n]) = Some (File c'))
       \<and> isdir s0 (Out @ [f])"
      and a: "asl_file conv (S @ [f]) (Out @ [f]) s0 y = Inr s2"
    have "exists s2 (Out @ [f, n]) \<longrightarrow> lookup s2 (Out @ [f, n]) = Some (File c')"
      using i by (intro asl_file_target [OF a _ cv]) simp_all
    moreover have "lookup s2 (S @ [f, n]) = lookup s0 (S @ [f, n])"
      using asl_file_parallel [OF a np] .
    moreover have "isdir s2 (Out @ [f])" using asl_file_dir_kept [OF a] i by simp
    ultimately show "lookup s2 (S @ [f, n]) = Some (File c)
       \<and> (exists s2 (Out @ [f, n]) \<longrightarrow> lookup s2 (Out @ [f, n]) = Some (File c'))
       \<and> isdir s2 (Out @ [f])"
      using i by simp
  next
    fix s0 y s2
    assume "lookup s0 (Out @ [f, n]) = Some (File c')" "asl_file conv (S @ [f]) (Out @ [f]) s0 y = Inr s2"
    then show "lookup s2 (Out @ [f, n]) = Some (File c')" by (rule asl_file_keeps)
  next
    fix s0 s2
    assume i: "lookup s0 (S @ [f, n]) = Some (File c)
       \<and> (exists s0 (Out @ [f, n]) \<longrightarrow> lookup s0 (Out @ [f, n]) = Some (File c'))
       \<and> isdir s0 (Out @ [f])"
      and a: "asl_file conv (S @ [f]) (Out @ [f]) s0 n = Inr s2"
    show "lookup s2 (Out @ [f, n]) = Some (File c')"
    proof (cases "exists s0 (Out @ [f, n])")
      case True
      with a i show ?thesis by (simp add: asl_file_def)
    next
      case False
      then have "\<not> isdir s0 ((Out @ [f]) @ [n])" by (auto simp: isdir_def exists_def)
      with i obtain s3 where w: "write_file (Out @ [f]) n c' s0 = Inr s3"
        using write_file_ok [of s0 "Out @ [f]" n c'] by (elim conjE) blast
      with a False i cv have "s2 = s3" by (simp add: asl_file_def read_file_def)
      with write_file_read [OF w, of "Out @ [f, n]"] show ?thesis
        by (auto simp: read_file_def split: option.splits node.splits)
    qed
  qed
qed

lemma sample_asl_copy: "asl_copy sample_conv [''raw''] [''out''] sample_asl_tree = Inr sample_asl_result"
  by code_simp

text \<open>
  C24. Safety of the ASL copy: a file that existed before the copy is still there
  afterwards with the same contents; the copy only creates files.
\<close>

theorem asl_copy_keeps_files:
  assumes "asl_copy conv S Out t = Inr t'" and "lookup t p = Some (File c)"
  shows "lookup t' p = Some (File c)"
  by (rule asl_copy_pres [where P = "\<lambda>s. lookup s p = Some (File c)", OF _ _ assms(2,1)])
     (simp add: makedirs_files, metis asl_file_keeps)

theorem asl_copy_keeps_files_witness:
  "lookup sample_asl_result [''out'', ''A'', ''old.jpg''] = Some (File ''o'')"
  using asl_copy_keeps_files [OF sample_asl_copy, of "[''out'', ''A'', ''old.jpg'']" "''o''"]
  by (simp add: sample_asl_tree_def)

text \<open>
  C25. The ASL copy does its work: when the source and output folders are apart, every
  file of a source class folder whose name has an image extension (any case), whose
  target did not exist and whose conversion succeeds ends up at
  \<open>output_base/<class>/<name>\<close> holding the converted bytes.
\<close>

theorem asl_copy_copies:
  assumes run: "asl_copy conv S Out t = Inr t'" and par: "\<not> prefix S Out" "\<not> prefix Out S"
    and rd: "read_file t (S @ [f, n]) = Inr c" and img: "ends_with_any (lower n) asl_exts"
    and cv: "conv c = Some c'" and fresh: "\<not> exists t (Out @ [f, n])"
  shows "read_file t' (Out @ [f, n]) = Inr c'"
proof -
  from run obtain names where ld: "listdir t S = Inr names"
    and loop: "for_each (asl_folder conv S Out) (filter (\<lambda>g. isdir t (S @ [g])) names) t = Inr t'"
    by (auto simp: asl_copy_def res_bind_eq_Inr)
  have src: "lookup t (S @ [f, n]) = Some (File c)"
    using rd by (auto simp: read_file_def split: option.splits node.splits)
  then obtain es where "lookup t (S @ [f]) = Some (Dir es)"
    using lookup_child [of t "S @ [f]" n] by auto
  then have "f \<in> set (filter (\<lambda>g. isdir t (S @ [g])) names)"
    using listdir_child [OF _ ld] by (simp add: isdir_def)
  then have "lookup t' (Out @ [f, n]) = Some (File c')"
  proof (rule for_each_establish [where I = "\<lambda>s. lookup s (S @ [f, n]) = Some (File c)
       \<and> (exists s (Out @ [f, n]) \<longrightarrow> lookup s (Out @ [f, n]) = Some (File c'))", OF _ _ _ _ _ loop])
    show "lookup t (S @ [f, n]) = Some (File c)
       \<and> (exists t (Out @ [f, n]) \<longrightarrow> lookup t (Out @ [f, n]) = Some (File c'))"
      using src fresh by simp
  next
    fix s y s'
    assume i: "lookup s (S @ [f, n]) = Some (File c)
       \<and> (exists s (Out @ [f, n]) \<longrightarrow> lookup s (Out @ [f, n]) = Some (File c'))"
      and a: "asl_folder conv S Out s y = Inr s'"
    from i show "lookup s' (S @ [f, n]) = Some (File c)
       \<and> (exists s' (Out @ [f, n]) \<longrightarrow> lookup s' (Out @ [f, n]) = Some (File c'))"
      by (intro asl_folder_inv [OF a par _ cv]) simp_all
  next
    fix s y s'
    assume "lookup s (Out @ [f, n]) = Some (File c')" and "asl_folder conv S Out s y = Inr s'"
    then show "lookup s' (Out @ [f, n]) = Some (File c')" by (rule asl_folder_keeps)
  next
    fix s s'
    assume i: "lookup s (S @ [f, n]) = Some (File c)
       \<and> (exists s (Out @ [f, n]) \<longrightarrow> lookup s (Out @ [f, n]) = Some (File c'))"
      and a: "asl_folder conv S Out s f = Inr s'"
    from i show "lookup s' (Out @ [f, n]) = Some (File c')"
      by (intro asl_folder_copies [OF a par _ cv img]) simp_all
  qed
  then show ?thesis by (simp add: read_file_def)
qed

theorem asl_copy_copies_witness:
  "read_file sample_asl_result [''out'', ''A'', ''a.jpg''] = Inr ''rgb:p''"
  using asl_copy_copies [OF sample_asl_copy, of "''A''" "''a.jpg''" "''p''" "''rgb:p''"]
  by (simp add: sample_asl_tree_def sample_conv_def read_file_def exists_def) code_simp

end
