(* ===== verification/Realtime.thy ===== *)
theory Realtime
  imports PyStr
begin

text \<open>
  The live inference script \<open>asl+sign digits detection/project_code/realtime_detection.py\<close>:
  read webcam frames until the camera closes, a read fails or the user presses \<open>q\<close>; run
  the trained detector on each frame and draw every detected box with a label
  \<open>"<class>: <conf>"\<close>. The camera is an oracle indexed by the iteration: whether
  \<open>cap.isOpened()\<close> holds, what \<open>cap.read()\<close> returns (\<open>None\<close> for \<open>ret = False\<close>) and what
  \<open>cv2.waitKey(1)\<close> returns (\<open>-1\<close> for no key). The detector is a function from a frame to
  its results, each a list of boxes; \<open>model.names\<close> is \<open>None\<close> when the model has no
  \<open>names\<close> attribute. What \<open>cv2.imshow\<close> shows is recorded as the list of drawings per frame.
\<close>

unbundle bit_operations_syntax

record det_box =
  xyxy :: "real \<times> real \<times> real \<times> real"
  box_conf :: real
  box_cls :: real

datatype drawing = Rect "int \<times> int" "int \<times> int" | Label string "int \<times> int"

record 'f camera =
  is_opened :: "nat \<Rightarrow> bool"
  read_frame :: "nat \<Rightarrow> 'f option"
  wait_key :: "nat \<Rightarrow> int"

text \<open>Line 26: the class name, from \<open>model.names\<close> (KeyError for an unknown index) or a default.\<close>

definition class_name :: "(int \<rightharpoonup> string) option \<Rightarrow> int \<Rightarrow> string res" where
  "class_name names cls = (case names of
      None \<Rightarrow> Inr (''Class '' @ str_int cls)
    | Some nm \<Rightarrow> (case nm cls of None \<Rightarrow> Inl KeyError | Some s \<Rightarrow> Inr s))"

text \<open>Lines 21--33 for one box: truncated corners, class, the rectangle and the label text.\<close>

definition draw_box :: "(int \<rightharpoonup> string) option \<Rightarrow> det_box \<Rightarrow> drawing list res" where
  "draw_box names b =
     (case xyxy b of (a, b1, c, d) \<Rightarrow>
      let x1 = py_int a; y1 = py_int b1; x2 = py_int c; y2 = py_int d; cls = py_int (box_cls b) in
      res_bind (class_name names cls) (\<lambda>n.
        Inr [Rect (x1, y1) (x2, y2), Label (n @ '': '' @ fmt_fixed 2 (box_conf b)) (x1, y1 - 10)]))"

text \<open>Lines 19--33: every box of every result, in order.\<close>

fun draw_results :: "(int \<rightharpoonup> string) option \<Rightarrow> det_box list list \<Rightarrow> drawing list res" where
  "draw_results names [] = Inr []"
| "draw_results names ([] # rs) = draw_results names rs"
| "draw_results names ((b # bs) # rs) =
     res_bind (draw_box names b) (\<lambda>d. res_bind (draw_results names (bs # rs)) (\<lambda>ds. Inr (d @ ds)))"

text \<open>Line 39: \<open>cv2.waitKey(1) & 0xFF == ord("q")\<close> on Python's integers.\<close>

definition is_quit :: "int \<Rightarrow> bool" where
  "is_quit k \<longleftrightarrow> k AND 255 = 113"

text \<open>
  Lines 10--40: the frame loop from iteration \<open>i\<close>, with the drawings shown so far. It
  may run forever, so it is a partial function: \<open>None\<close> is a run that never ends.
\<close>

partial_function (option) rt_loop ::
  "('f \<Rightarrow> det_box list list) \<Rightarrow> (int \<rightharpoonup> string) option \<Rightarrow> 'f camera \<Rightarrow> nat
     \<Rightarrow> drawing list list \<Rightarrow> drawing list list res option" where
  "rt_loop model names cam i shown =
     (if \<not> is_opened cam i then Some (Inr shown)
      else case read_frame cam i of
        None \<Rightarrow> Some (Inr shown)
      | Some frame \<Rightarrow> (case draw_results names (model frame) of
          Inl e \<Rightarrow> Some (Inl e)
        | Inr ds \<Rightarrow> if is_quit (wait_key cam i) then Some (Inr (shown @ [ds]))
                   else rt_loop model names cam (Suc i) (shown @ [ds])))"

definition realtime :: "('f \<Rightarrow> det_box list list) \<Rightarrow> (int \<rightharpoonup> string) option \<Rightarrow> 'f camera \<Rightarrow> drawing list list res option" where
  "realtime model names cam = rt_loop model names cam 0 []"

text \<open>Where the loop stops: the iterations at which one of its exits is taken.\<close>

definition rt_stop :: "('f \<Rightarrow> det_box list list) \<Rightarrow> (int \<rightharpoonup> string) option \<Rightarrow> 'f camera \<Rightarrow> nat \<Rightarrow> bool" where
  "rt_stop model names cam n =
     (\<not> is_opened cam n \<or> (case read_frame cam n of None \<Rightarrow> True
        | Some frame \<Rightarrow> isl (draw_results names (model frame)) \<or> is_quit (wait_key cam n)))"

text \<open>The drawings of a frame the loop went past (its results drew without error).\<close>

definition frame_drawings :: "('f \<Rightarrow> det_box list list) \<Rightarrow> (int \<rightharpoonup> string) option \<Rightarrow> 'f camera \<Rightarrow> nat \<Rightarrow> drawing list" where
  "frame_drawings model names cam j = projr (draw_results names (model (the (read_frame cam j))))"

text \<open>A sample: an always open camera delivering frames 0, 1, 2, ..., a detector seeing one
  box of class 0 with confidence 0.5 in every frame, and \<open>q\<close> pressed at frame 2.\<close>

definition sample_model :: "nat \<Rightarrow> det_box list list" where
  "sample_model frame = [[\<lparr>xyxy = (10.7, 20.2, 110.5, 220.9), box_conf = 1/2, box_cls = 0\<rparr>]]"

definition sample_names :: "(int \<rightharpoonup> string) option" where
  "sample_names = Some [0 \<mapsto> ''A'']"

definition sample_cam :: "nat camera" where
  "sample_cam = \<lparr>is_opened = (\<lambda>j. True), read_frame = (\<lambda>j. Some j), wait_key = (\<lambda>j. if j = 2 then 113 else -1)\<rparr>"

definition sample_drawing :: "drawing list" where
  "sample_drawing = [Rect (10, 20) (110, 220), Label ''A: 0.50'' (10, 10)]"

section \<open>The loop stops exactly at an exit\<close>

lemma rt_loop_Some_stop':
  "\<forall>model names cam i shown y. rt_loop model names cam i shown = Some y \<longrightarrow> (\<exists>n \<ge> i. rt_stop model names cam n)"
proof (induction rule: rt_loop.fixp_induct)
  case 1
  show ?case
    using option_admissible [where P = "\<lambda>x y. \<exists>n\<ge>snd (fst x). rt_stop (fst (fst (fst (fst x)))) (snd (fst (fst (fst x)))) (snd (fst (fst x))) n"]
    by (simp add: curry_def split_paired_All)
next
  case 2
  then show ?case by simp
next
  case (3 f)
  show ?case
  proof (intro allI impI)
    fix model names cam i shown y
    assume run: "(if \<not> is_opened cam i then Some (Inr shown)
           else case read_frame cam i of None \<Rightarrow> Some (Inr shown)
                | Some frame \<Rightarrow>
                    case draw_results names (model frame) of Inl e \<Rightarrow> Some (Inl e)
                    | Inr ds \<Rightarrow>
                        if is_quit (wait_key cam i) then Some (Inr (shown @ [ds]))
                        else f model names cam (Suc i) (shown @ [ds])) = Some y"
    show "\<exists>n \<ge> i. rt_stop model names cam n"
    proof (cases "rt_stop model names cam i")
      case False
      then obtain frame ds where "read_frame cam i = Some frame" "draw_results names (model frame) = Inr ds"
        "is_opened cam i" "\<not> is_quit (wait_key cam i)"
        by (cases "read_frame cam i"; cases "draw_results names (model (the (read_frame cam i)))")
           (auto simp: rt_stop_def)
      with run have "f model names cam (Suc i) (shown @ [ds]) = Some y" by simp
      then obtain n where "Suc i \<le> n" "rt_stop model names cam n"
        using "3.IH" by blast
      then show ?thesis by (auto intro: Suc_leD)
    qed blast
  qed
qed

lemma rt_loop_stop_now:
  "rt_stop model names cam i \<Longrightarrow> \<exists>y. rt_loop model names cam i shown = Some y"
  by (cases "read_frame cam i"; cases "draw_results names (model (the (read_frame cam i)))")
     (auto simp: rt_stop_def rt_loop.simps)

lemma rt_loop_continue:
  "\<not> rt_stop model names cam i \<Longrightarrow>
     rt_loop model names cam i shown = rt_loop model names cam (Suc i) (shown @ [frame_drawings model names cam i])"
  by (cases "read_frame cam i"; cases "draw_results names (model (the (read_frame cam i)))")
     (auto simp: rt_stop_def rt_loop.simps frame_drawings_def)

lemma rt_loop_run:
  "\<forall>j. i \<le> j \<and> j < n \<longrightarrow> \<not> rt_stop model names cam j \<Longrightarrow> i \<le> n \<Longrightarrow>
     rt_loop model names cam i shown = rt_loop model names cam n (shown @ map (frame_drawings model names cam) [i..<n])"
proof (induction "n - i" arbitrary: i shown)
  case (Suc k)
  then have "\<not> rt_stop model names cam i" "i < n" by auto
  moreover have "[i..<n] = i # [Suc i..<n]" using \<open>i < n\<close> by (simp add: upt_conv_Cons)
  ultimately show ?case
    using Suc.hyps(1) [of "Suc i" "shown @ [frame_drawings model names cam i]"] Suc.hyps(2) Suc.prems(1)
    by (simp add: rt_loop_continue)
qed simp

lemma rt_loop_returns:
  assumes "rt_stop model names cam n" and "i \<le> n"
  shows "\<exists>y. rt_loop model names cam i shown = Some y"
proof -
  define m where "m = (LEAST m. i \<le> m \<and> rt_stop model names cam m)"
  have m: "i \<le> m" "rt_stop model names cam m" and first: "\<forall>j. i \<le> j \<and> j < m \<longrightarrow> \<not> rt_stop model names cam j"
    using LeastI [of "\<lambda>m. i \<le> m \<and> rt_stop model names cam m" n] not_less_Least assms m_def by auto
  show ?thesis using rt_loop_run [OF first m(1)] rt_loop_stop_now [OF m(2)] by simp
qed

lemma and_255: "(k::int) AND 255 = k mod 256"
proof -
  have "(255::int) = mask 8" by (simp add: mask_eq_exp_minus_1)
  then have "k AND 255 = take_bit 8 k" by (simp add: take_bit_eq_mask)
  then show ?thesis by (simp add: take_bit_eq_mod)
qed

section \<open>Properties of the live loop\<close>

text \<open>
  C26. Termination of the frame loop: the script returns (normally or with an exception)
  exactly when at some iteration one of its exits is taken: the camera is closed, a read
  fails, drawing a detection raises, or the key read after the frame is \<open>q\<close>. Otherwise
  it runs forever.
\<close>

theorem realtime_terminates_iff:
  "realtime model names cam \<noteq> None \<longleftrightarrow> (\<exists>n. rt_stop model names cam n)"
  using rt_loop_Some_stop' rt_loop_returns [of _ _ _ _ 0] by (fastforce simp: realtime_def)

theorem realtime_terminates_iff_witness: "realtime sample_model sample_names sample_cam \<noteq> None"
proof -
  have "rt_stop sample_model sample_names sample_cam 2"
    by (simp add: rt_stop_def sample_cam_def is_quit_def)
  then show ?thesis using realtime_terminates_iff [of sample_model sample_names sample_cam] by blast
qed

text \<open>
  C27. Liveness of the quit key: if no exit is taken before frame \<open>n\<close> and at frame \<open>n\<close>
  the camera is open, delivers a frame whose detections draw, and the key pressed is
  \<open>q\<close>, the script stops right after showing that frame, having shown exactly frames
  \<open>0..n\<close>.
\<close>

theorem realtime_quit:
  assumes "\<forall>j < n. \<not> rt_stop model names cam j" and "is_opened cam n" and "read_frame cam n = Some frame"
    and "draw_results names (model frame) = Inr ds" and "is_quit (wait_key cam n)"
  shows "realtime model names cam = Some (Inr (map (frame_drawings model names cam) [0..<n] @ [ds]))"
  using rt_loop_run [of 0 n model names cam "[]"] assms by (simp add: realtime_def rt_loop.simps)

lemma sample_draw: "draw_results sample_names (sample_model j) = Inr sample_drawing"
  by (simp add: sample_model_def sample_names_def sample_drawing_def draw_box_def class_name_def
      py_int_def fmt_fixed_def round_half_even_def pad_zero_def str_nat_small str_nat_big digit_char_def)
     code_simp

theorem realtime_quit_witness:
  "realtime sample_model sample_names sample_cam = Some (Inr [sample_drawing, sample_drawing, sample_drawing])"
proof -
  have first: "\<forall>j < 2. \<not> rt_stop sample_model sample_names sample_cam j"
    by (simp add: rt_stop_def sample_cam_def sample_draw is_quit_def less_Suc_eq)
  show ?thesis
    using realtime_quit [of 2 sample_model sample_names sample_cam 2 sample_drawing] first
    by (simp add: sample_cam_def sample_draw is_quit_def frame_drawings_def upt_rec)
qed

text \<open>
  The quit test reads the low byte of the key code (\<open>& 0xFF\<close> on Python's integers is
  reduction modulo 256): no key (\<open>-1\<close>) and \<open>Q\<close> (81) never quit, and \<open>q\<close> with
  modifier bits above the low byte (here 113 + 256) does.
\<close>

lemma is_quit_low_byte:
  "(is_quit k \<longleftrightarrow> k mod 256 = 113) \<and> \<not> is_quit (-1) \<and> \<not> is_quit 81 \<and> is_quit (113 + 256)"
  by (simp add: is_quit_def and_255)

end
