(* ===== verification/Spec2Isabelle.thy ===== *)
theory Spec2Isabelle
  imports PyStr FileSys BoxDeriver LabelWriter Labeling Labeling26 Validator Splitter ImageExtraction Realtime
begin

text \<open>
  \<^bold>\<open>A verification library for the ASL hand-sign dataset scripts.\<close>

  The repository prepares a YOLO dataset from folders of hand-sign photographs, one folder
  per class. Extraction scripts fill these folders: digit samples from NumPy arrays, named
  by per-label counters, and the ASL alphabet images copied where absent. A labeling script runs a hand-landmark detector on every image, derives a
  bounding box from the landmarks and writes it, normalised, as a one-line label file
  beside the image. A validator counts images and labels per folder. A splitter shuffles
  each folder's complete image/label pairs into train and val folders. The parts interact
  only through the file system: the extractor writes the class folders, the labeler writes
  the label files beside the images, and the validator and the splitter read them. A
  separate live script runs the trained detector on webcam frames until the user quits.

  \<^bold>\<open>Theories and what they model.\<close>

  \<^item> \<open>Prelude\<close>: Python exceptions as the datatype \<open>py_error\<close>; results as
    \<open>py_error + 'a\<close> sequenced by \<open>res_bind\<close>; a Python \<open>for\<close> loop whose body may raise
    (\<open>for_each\<close>), with generic loop lemmas (invariants, totality, the frame of a body that
    touches one key, and idempotence of such loops); facts on association lists.
  \<^item> \<open>PyStr\<close>: the string and number built-ins the scripts call: \<open>str.lower\<close>,
    \<open>str.strip\<close>, \<open>endswith\<close>, \<open>os.path.splitext\<close>, \<open>int()\<close> on floats, \<open>min\<close>/\<open>max\<close>,
    \<open>str(n)\<close>, and the \<open>:.6f\<close> format (round half to even on the exact value).
  \<^item> \<open>FileSys\<close>: the file system as a tree whose directories are association lists in
    \<open>os.listdir\<close> order, with \<open>exists\<close>, \<open>isdir\<close>, \<open>listdir\<close>, reading, writing a file,
    \<open>os.makedirs(exist_ok=True)\<close> and \<open>shutil.copy2\<close>, each returning an exception value
    where CPython raises; frame lemmas (what a write leaves unchanged) and the
    well-formedness invariant \<open>wf_node\<close> (distinct names at every level) with its
    preservation by every update.
  \<^item> \<open>BoxDeriver\<close>: the box computations of both labeling scripts
    (\<open>asl+sign digits detection/project_code/bounding_box_generation.py\<close> lines 58--70,
    \<open>box_combined\<close>; \<open>asl_detection/project_code/bounding_box_generation.py\<close> lines
    60--91, \<open>box_padded\<close> with \<open>pad_extent\<close>), and the spec's box \<open>spec_box\<close>.
  \<^item> \<open>LabelWriter\<close>: the class vocabularies and \<open>class_map\<close> dictionaries of both scripts,
    the label line \<open>yolo_line\<close>, the label file name \<open>label_name\<close>, the image filter
    \<open>is_image_name\<close>; a reader \<open>parse_label\<close> for the label format of spec section 6.
  \<^item> \<open>Labeling\<close>: the whole 36-class labeling pass (lines 31--78 of the first script):
    \<open>label_pass_36\<close> over the folders, \<open>label_class_36\<close> per folder, \<open>label_image_36\<close> per
    image, with the image codec and the static-mode detector as parameters.
  \<^item> \<open>Labeling26\<close>: the 26-class script with its preview loop, console prompt and
    generation loop (\<open>label_pass_26\<close>, \<open>label_class_26\<close>, \<open>preview_loop\<close>, \<open>ask_yes\<close>,
    \<open>gen_image\<close>) over a session record holding the file system, the tracking detector's
    state, standard input and the log of previews.
  \<^item> \<open>Validator\<close>: \<open>bounding_box_generation_validation.py\<close> as \<open>validate\<close>, returning
    the printed rows (\<open>report_row\<close>), against the spec's counts \<open>spec_row\<close>.
  \<^item> \<open>Splitter\<close>: \<open>dataset_splitting.py\<close> as \<open>split_dataset\<close>, \<open>split_class\<close>,
    \<open>split_sets\<close>, \<open>copy_pair\<close>, with \<open>random.shuffle\<close> as CPython's Fisher--Yates loop over a
    generator passed in as a parameter.
  \<^item> \<open>ImageExtraction\<close>: both \<open>image_extraction.py\<close> scripts: part 1 of the 36-class one
    (\<open>digits_part\<close>: ten digit folders, \<open>np.argmax\<close> as the scan \<open>argmax_acc\<close>, the counter
    dictionary, file names \<open>digit_filename\<close>, the save) and the ASL copy of both
    (\<open>asl_copy\<close>, \<open>asl_folder\<close>, \<open>asl_file\<close>: copy-if-absent with every exception caught),
    composed as \<open>extraction_36\<close> and \<open>extraction_26\<close>. The reference definitions
    \<open>first_max\<close> and \<open>digit_plan\<close> state the intended result without the scan and the counters.
  \<^item> \<open>Realtime\<close>: \<open>realtime_detection.py\<close> as the partial function \<open>rt_loop\<close> over a camera
    oracle (\<open>is_opened\<close>, \<open>read_frame\<close>, \<open>wait_key\<close> per iteration) and a detector
    function; \<open>draw_results\<close> and \<open>draw_box\<close> give the rectangles and label texts drawn on a
    frame, \<open>is_quit\<close> the key test \<open>waitKey(1) & 0xFF == ord("q")\<close> on Python integers.

  \<^bold>\<open>What is proved\<close> (claims C1--C27, each after a text block naming it):
  boxes of in-frame hands lie in the unit square for both derivers, and the 36-class one
  refines the spec's box (C1--C3); the 26-class padding is asymmetric, and for any
  landmarks the emitted width is negative exactly when the padded extent lies wholly
  outside the image (C4--C5); label lines read back to the rounded box within 5e-7
  (C6--C7); the 36-class pass is idempotent, writes exactly the labels computed from each
  known folder, and leaves unknown folders untouched (C8--C10); the validator reports the
  spec's counts in sorted order, with \<open>0 \<le> labeled \<le> total\<close> and
  \<open>missing = total - labeled\<close> (C11--C13); the split is a permutation with
  \<open>floor(4n/5)\<close> train entries and disjoint halves on distinct names, but duplicate base
  names leak into both halves and an image whose extension matches only in another case
  is counted in the split but never copied (C14--C17); the 26-class script shows at most
  ten previews, labels only from position \<open>preview_count\<close> on, and raises EOFError
  without input (C18--C20); the counter loop of the digit extraction performs exactly the
  writes of the counter-free numbering, needs a labelled row per sample and loses no
  sample (C21--C23); the ASL copy never changes an existing file and creates the
  converted target of every image whose target was absent (C24--C25); the live loop
  returns exactly when one of its exits is taken and stops right after the frame at which
  \<open>q\<close> is pressed (C26--C27). Supporting lemmas record computations on fixed inputs
  behind some findings: the spec's worked example (\<open>box_padded_spec_example\<close>), the
  two vocabularies (\<open>class_map_vocabularies\<close>), a fully previewed folder left unlabeled
  (\<open>label_class_26_all_previewed_unlabeled\<close>), the argmax scan against the first index
  of the maximum (\<open>py_argmax_first_max\<close>) and the low-byte key test (\<open>is_quit_low_byte\<close>).

  \<^bold>\<open>Modelling choices, bounds and fuel.\<close>
  Floats are exact reals. This is sound for the claims: the scripts' arithmetic on
  landmark coordinates is stated with real bounds, and the split ratio 0.8 as a double lies
  just above 4/5, so \<open>int(n * 0.8) = floor(4n/5)\<close> for every folder size below 2 to the
  power 50. All loops are over finite listings and are structural recursions (\<open>fun\<close>,
  \<open>for_each\<close>), so no fuel is needed and every function is total; the random
  generator is any function from a state to a draw, and the permutation and split
  claims hold for every generator whose draws stay below the requested bound
  (\<open>valid_rng\<close>). The one loop that may run forever, the webcam loop, is a
  \<open>partial_function (option)\<close>: \<open>None\<close> is a run that never ends, and its termination is
  characterised exactly (C30) rather than assumed; no fuel bound is used. MediaPipe is a function from an image to its hands (static mode) or from
  a tracker state and an image to the hands and the next state (tracking mode); OpenCV's
  \<open>imread\<close> is a decoder from file bytes and the image shape. Console output (\<open>print\<close>,
  progress bars) has no effect on the model except where it is the result: the
  validator's rows and the 26-class preview log. Reads through a non-directory path are
  FileNotFoundError (CPython says NotADirectoryError; no claim depends on it).

  \<^bold>\<open>Not modelled.\<close>
  \<^item> \<open>image_processing/combined_data.py\<close>: a helper that merges the raw datasets into
    one flat folder outside the pipeline the spec describes (no later script reads its
    output).
  \<^item> The pixel work of the extraction scripts (\<open>np.load\<close>, PIL conversion, resizing and
    encoding) and of the live script (YOLO inference, drawing into the frame, the window):
    they enter the model as parameters, the arrays, the conversions and the detector.
  \<^item> The detector's and the codecs' internals, and the Python standard library itself
    (modelled only through the behaviour the scripts rely on, in \<open>FileSys\<close> and \<open>PyStr\<close>).
\<close>

end
